theory Spec2Isabelle
  imports Main "HOL-Library.List_Lexorder" "HOL-Library.Multiset" "HOL-Library.AList"
    "HOL-Library.Word"
begin

unbundle bit_operations_syntax

section \<open>Python values\<close>

text \<open>
  A Python \<open>str\<close> is a sequence of Unicode code points; \<open>len\<close> counts code points and
  \<open>ord\<close> reads one. The model keeps a string as the list of its code points. \<open>py\<close> turns
  a literal of the source into that list.
\<close>

type_synonym ustr = "nat list"

definition py :: "string \<Rightarrow> ustr" where
  "py s = map of_char s"

text \<open>Every exception the loader can raise is a value.\<close>

datatype error = KeyError | TypeError | AttributeError | ValueError | IndexError
  | UnicodeEncodeError

text \<open>The values a cell of a result row or of a dict can hold.\<close>

datatype 'f pyval = PNone | PStr ustr | PInt int | PFloat 'f

subsection \<open>String methods used by the loader\<close>

text \<open>\<open>s.startswith(p)\<close>.\<close>

definition startswith :: "ustr \<Rightarrow> ustr \<Rightarrow> bool" where
  "startswith s p = (take (length p) s = p)"

text \<open>
  \<open>s.split(sep)\<close> for a separator of one character (the loader splits on \<open>,\<close>, \<open>-\<close>,
  \<open>:\<close> and \<open>|\<close>): the result always has at least one field, empty fields are kept.
\<close>

fun str_split :: "nat \<Rightarrow> ustr \<Rightarrow> ustr list" where
  "str_split sep [] = [[]]"
| "str_split sep (x # xs) =
     (if x = sep then [] # str_split sep xs
      else (case str_split sep xs of
              [] \<Rightarrow> [[x]]
            | p # ps \<Rightarrow> (x # p) # ps))"

text \<open>\<open>sep.join(parts)\<close>.\<close>

fun str_join :: "ustr \<Rightarrow> ustr list \<Rightarrow> ustr" where
  "str_join sep [] = []"
| "str_join sep [p] = p"
| "str_join sep (p # q # ps) = p @ sep @ str_join sep (q # ps)"

text \<open>
  The characters \<open>str.split()\<close> treats as whitespace (CPython's
  \<open>_PyUnicode_IsWhitespace\<close>): U+0009..U+000D, U+001C..U+0020, U+0085, U+00A0, U+1680,
  U+2000..U+200A, U+2028, U+2029, U+202F, U+205F, U+3000.
\<close>

definition isspace :: "nat \<Rightarrow> bool" where
  "isspace c = ((9 \<le> c \<and> c \<le> 13) \<or> (28 \<le> c \<and> c \<le> 32) \<or> c = 133 \<or> c = 160
     \<or> c = 5760 \<or> (8192 \<le> c \<and> c \<le> 8202) \<or> c = 8232 \<or> c = 8233 \<or> c = 8239
     \<or> c = 8287 \<or> c = 12288)"

text \<open>
  \<open>s.split()\<close> with no argument: fields are the maximal runs of non-whitespace; leading
  and trailing whitespace give no field. \<open>w\<close> is the field being read.
\<close>

fun split_ws_from :: "ustr \<Rightarrow> ustr \<Rightarrow> ustr list" where
  "split_ws_from w [] = (if w = [] then [] else [w])"
| "split_ws_from w (x # xs) =
     (if isspace x then (if w = [] then split_ws_from [] xs else w # split_ws_from [] xs)
      else split_ws_from (w @ [x]) xs)"

definition str_split_ws :: "ustr \<Rightarrow> ustr list" where
  "str_split_ws s = split_ws_from [] s"

text \<open>
  \<open>s.replace(old, new)\<close>: the occurrences of \<open>old\<close> are found from the left and do not
  overlap. For an empty \<open>old\<close> Python puts \<open>new\<close> before every character and at the end.
\<close>

fun replace_from :: "ustr \<Rightarrow> ustr \<Rightarrow> ustr \<Rightarrow> ustr" where
  "replace_from old new [] = []"
| "replace_from old new (x # xs) =
     (if old \<noteq> [] \<and> take (length old) (x # xs) = old
      then new @ replace_from old new (drop (length old) (x # xs))
      else x # replace_from old new xs)"

definition str_replace :: "ustr \<Rightarrow> ustr \<Rightarrow> ustr \<Rightarrow> ustr" where
  "str_replace s old new =
     (if old = [] then new @ concat (map (\<lambda>c. c # new) s) else replace_from old new s)"

text \<open>
  \<open>s.lower()\<close>. An ASCII character maps to its ASCII lower case. What a character from
  U+0080 on maps to is read from the interpreter's Unicode tables and may depend on its
  neighbours (final sigma) and be longer than one character: it is the parameter \<open>ul\<close>,
  given the whole string and the position.
\<close>

definition ascii_lower :: "nat \<Rightarrow> nat" where
  "ascii_lower c = (if 65 \<le> c \<and> c \<le> 90 then c + 32 else c)"

fun lower_from :: "(ustr \<Rightarrow> nat \<Rightarrow> ustr) \<Rightarrow> ustr \<Rightarrow> nat \<Rightarrow> ustr \<Rightarrow> ustr" where
  "lower_from ul s i [] = []"
| "lower_from ul s i (c # cs) =
     (if c < 128 then [ascii_lower c] else ul s i) @ lower_from ul s (Suc i) cs"

definition str_lower :: "(ustr \<Rightarrow> nat \<Rightarrow> ustr) \<Rightarrow> ustr \<Rightarrow> ustr" where
  "str_lower ul s = lower_from ul s 0 s"

text \<open>
  \<open>re.compile('^C\d+$').match(did)\<close>. For a \<open>str\<close> pattern \<open>\d\<close> is any Unicode decimal
  digit: the ASCII digits, and the characters from U+0080 on that the interpreter's
  Unicode tables put in category Nd, the parameter \<open>nd\<close>. \<open>$\<close> matches at the end of
  the string and also just before a newline that ends it.
\<close>

definition isdecimal :: "(nat \<Rightarrow> bool) \<Rightarrow> nat \<Rightarrow> bool" where
  "isdecimal nd c = ((48 \<le> c \<and> c \<le> 57) \<or> (128 \<le> c \<and> nd c))"

definition umls_pattern_match :: "(nat \<Rightarrow> bool) \<Rightarrow> ustr \<Rightarrow> bool" where
  "umls_pattern_match nd did =
     (case did of
        [] \<Rightarrow> False
      | c # rest \<Rightarrow>
          c = of_char CHR ''C'' \<and> takeWhile (isdecimal nd) rest \<noteq> []
          \<and> (dropWhile (isdecimal nd) rest = [] \<or> dropWhile (isdecimal nd) rest = [10]))"

subsection \<open>\<open>str.encode('utf-8')\<close> and \<open>hashlib.md5(...).hexdigest()\<close>\<close>

text \<open>
  UTF-8, with Python's strict error handling: a surrogate code point cannot be encoded.
  Bytes are numbers below 256.
\<close>

definition utf8_char :: "nat \<Rightarrow> error + nat list" where
  "utf8_char c =
     (if c < 0x80 then Inr [c]
      else if c < 0x800 then Inr [0xC0 + c div 64, 0x80 + c mod 64]
      else if 0xD800 \<le> c \<and> c < 0xE000 then Inl UnicodeEncodeError
      else if c < 0x10000 then
        Inr [0xE0 + c div 4096, 0x80 + c div 64 mod 64, 0x80 + c mod 64]
      else if c < 0x110000 then
        Inr [0xF0 + c div 262144, 0x80 + c div 4096 mod 64, 0x80 + c div 64 mod 64,
             0x80 + c mod 64]
      else Inl UnicodeEncodeError)"

fun encode_utf8 :: "ustr \<Rightarrow> error + nat list" where
  "encode_utf8 [] = Inr []"
| "encode_utf8 (c # cs) =
     (case utf8_char c of
        Inl e \<Rightarrow> Inl e
      | Inr bs \<Rightarrow> (case encode_utf8 cs of Inl e \<Rightarrow> Inl e | Inr rest \<Rightarrow> Inr (bs @ rest)))"

text \<open>
  MD5 as RFC 1321 defines it, on 32-bit words: the message is padded with a one bit,
  zeros and its length in bits, and read in blocks of sixteen little-endian words; each
  block goes through 64 steps. \<open>md5_K ! i\<close> is \<open>floor (2^32 * abs (sin (i + 1)))\<close>.
\<close>

type_synonym w32 = "32 word"

definition md5_K :: "w32 list" where
  "md5_K =
    [0xd76aa478, 0xe8c7b756, 0x242070db, 0xc1bdceee, 0xf57c0faf, 0x4787c62a, 0xa8304613,
     0xfd469501, 0x698098d8, 0x8b44f7af, 0xffff5bb1, 0x895cd7be, 0x6b901122, 0xfd987193,
     0xa679438e, 0x49b40821, 0xf61e2562, 0xc040b340, 0x265e5a51, 0xe9b6c7aa, 0xd62f105d,
     0x02441453, 0xd8a1e681, 0xe7d3fbc8, 0x21e1cde6, 0xc33707d6, 0xf4d50d87, 0x455a14ed,
     0xa9e3e905, 0xfcefa3f8, 0x676f02d9, 0x8d2a4c8a, 0xfffa3942, 0x8771f681, 0x6d9d6122,
     0xfde5380c, 0xa4beea44, 0x4bdecfa9, 0xf6bb4b60, 0xbebfbc70, 0x289b7ec6, 0xeaa127fa,
     0xd4ef3085, 0x04881d05, 0xd9d4d039, 0xe6db99e5, 0x1fa27cf8, 0xc4ac5665, 0xf4292244,
     0x432aff97, 0xab9423a7, 0xfc93a039, 0x655b59c3, 0x8f0ccc92, 0xffeff47d, 0x85845dd1,
     0x6fa87e4f, 0xfe2ce6e0, 0xa3014314, 0x4e0811a1, 0xf7537e82, 0xbd3af235, 0x2ad7d2bb,
     0xeb86d391]"

definition md5_s :: "nat list" where
  "md5_s =
    [7, 12, 17, 22, 7, 12, 17, 22, 7, 12, 17, 22, 7, 12, 17, 22,
     5, 9, 14, 20, 5, 9, 14, 20, 5, 9, 14, 20, 5, 9, 14, 20,
     4, 11, 16, 23, 4, 11, 16, 23, 4, 11, 16, 23, 4, 11, 16, 23,
     6, 10, 15, 21, 6, 10, 15, 21, 6, 10, 15, 21, 6, 10, 15, 21]"

definition rotl32 :: "nat \<Rightarrow> w32 \<Rightarrow> w32" where
  "rotl32 s w = push_bit s w OR drop_bit (32 - s) w"

definition md5_step ::
  "w32 list \<Rightarrow> nat \<Rightarrow> w32 \<times> w32 \<times> w32 \<times> w32 \<Rightarrow> w32 \<times> w32 \<times> w32 \<times> w32" where
  "md5_step M i st =
     (case st of (a, b, c, d) \<Rightarrow>
        let (f, g) =
              (if i < 16 then ((b AND c) OR (NOT b AND d), i)
               else if i < 32 then ((d AND b) OR (NOT d AND c), (5 * i + 1) mod 16)
               else if i < 48 then (b XOR c XOR d, (3 * i + 5) mod 16)
               else (c XOR (b OR NOT d), (7 * i) mod 16));
            f' = f + a + md5_K ! i + M ! g
        in (d, b + rotl32 (md5_s ! i) f', b, c))"

definition md5_block ::
  "w32 \<times> w32 \<times> w32 \<times> w32 \<Rightarrow> w32 list \<Rightarrow> w32 \<times> w32 \<times> w32 \<times> w32" where
  "md5_block st M =
     (case st of (a0, b0, c0, d0) \<Rightarrow>
        case fold (md5_step M) [0..<64] st of
          (a, b, c, d) \<Rightarrow> (a0 + a, b0 + b, c0 + c, d0 + d))"

fun le_word :: "nat list \<Rightarrow> w32" where
  "le_word [] = 0"
| "le_word (b # bs) = of_nat b + push_bit 8 (le_word bs)"

fun chunks :: "nat \<Rightarrow> 'a list \<Rightarrow> 'a list list" where
  "chunks n [] = []"
| "chunks n (x # xs) =
     (if n = 0 then [] else take n (x # xs) # chunks n (drop n (x # xs)))"

definition le_bytes :: "nat \<Rightarrow> nat \<Rightarrow> nat list" where
  "le_bytes k n = map (\<lambda>i. (n div 256 ^ i) mod 256) [0..<k]"

definition md5_pad :: "nat list \<Rightarrow> nat list" where
  "md5_pad bs =
     bs @ [128] @ replicate ((119 - length bs mod 64) mod 64) 0
        @ le_bytes 8 ((8 * length bs) mod 2 ^ 64)"

definition md5_words :: "nat list \<Rightarrow> w32 list list" where
  "md5_words bs = map (\<lambda>blk. map le_word (chunks 4 blk)) (chunks 64 (md5_pad bs))"

definition md5_state :: "nat list \<Rightarrow> w32 \<times> w32 \<times> w32 \<times> w32" where
  "md5_state bs =
     fold (\<lambda>M st. md5_block st M) (md5_words bs)
       (0x67452301, 0xefcdab89, 0x98badcfe, 0x10325476)"

definition hex_digit :: "nat \<Rightarrow> nat" where
  "hex_digit n = (if n < 10 then of_char CHR ''0'' + n else of_char CHR ''a'' + (n - 10))"

definition hex_byte :: "nat \<Rightarrow> ustr" where
  "hex_byte b = [hex_digit (b div 16), hex_digit (b mod 16)]"

definition md5_hexdigest :: "nat list \<Rightarrow> ustr" where
  "md5_hexdigest bs =
     (case md5_state bs of
        (a, b, c, d) \<Rightarrow>
          concat (map hex_byte (concat (map (\<lambda>w. le_bytes 4 (unat w)) [a, b, c, d]))))"

text \<open>\<open>hashlib.md5(grp.encode("utf-8")).hexdigest()\<close>.\<close>

definition md5_hex :: "ustr \<Rightarrow> error + ustr" where
  "md5_hex s = (case encode_utf8 s of Inl e \<Rightarrow> Inl e | Inr bs \<Rightarrow> Inr (md5_hexdigest bs))"

section \<open>The loader\<close>

subsection \<open>Identifier normalization (parse\_gene\_to\_disease, lines 198--204)\<close>

text \<open>
  The \<open>elif\<close> chain that rewrites a disease identifier which is not \<open>None\<close>.
  \<open>dparts[1]\<close> raises IndexError when the split has one field only.
\<close>

definition normalize_did :: "(nat \<Rightarrow> bool) \<Rightarrow> ustr \<Rightarrow> error + ustr" where
  "normalize_did nd did =
     (if umls_pattern_match nd did then Inr (py ''UMLS:'' @ did)
      else if startswith did (py ''Orphanet:'') then
        (case str_split (of_char CHR '':'') did of
           p0 # p1 # ps \<Rightarrow> Inr (py ''ORPHANET:'' @ p1)
         | _ \<Rightarrow> Inl IndexError)
      else Inr did)"

subsection \<open>What the loader takes from its surroundings\<close>

text \<open>
  The interpreter's Unicode tables (see \<open>isdecimal\<close> and \<open>str_lower\<close>), the coercion
  \<open>float(x)\<close> of a raw affinity value (\<open>Inl\<close> when it raises) and the random number
  generator: \<open>random rt k\<close> is the text \<open>f'{random.random()}'\<close> of the draw number \<open>k\<close>,
  a string of ASCII characters.
\<close>

record ('n, 'f) runtime =
  unicode_nd :: "nat \<Rightarrow> bool"
  unicode_lower :: "ustr \<Rightarrow> nat \<Rightarrow> ustr"
  to_float :: "'n \<Rightarrow> error + 'f"
  random :: "nat \<Rightarrow> string"

text \<open>
  A row of the result of GENE\_TO\_DISEASE, by column; a column that is NULL reads
  \<open>None\<close>.
\<close>

record disease_row =
  d_value :: "ustr option"
  d_did :: "ustr option"
  d_name :: "ustr option"
  d_sym :: "ustr option"
  d_dtype :: "ustr option"

text \<open>
  A row of the result of GENE\_TO\_DRUG\_ACTIVITY or GENE\_TO\_CMPD\_ACTIVITY. The drug
  query has no column \<open>pubmed_ids\<close>: there, and where the column is NULL,
  \<open>a_pubmed_ids\<close> is \<open>None\<close> (\<open>get_edge_props\<close> treats both alike).
\<close>

record 'n activity_row =
  a_value :: "ustr option"
  a_drug :: "ustr option"
  a_cid :: "ustr option"
  a_id_src :: "ustr option"
  a_sym :: "ustr option"
  a_affinity :: "'n option"
  a_affinity_parameter :: "ustr option"
  a_pred :: "ustr option"
  a_pubmed_ids :: "ustr option"
  a_dtype :: "ustr option"

subsection \<open>Edge properties (get\_edge\_props, snakify)\<close>

definition snakify :: "ustr \<Rightarrow> ustr" where
  "snakify text =
     (let decomma = str_join (py ''_'') (str_split (of_char CHR '','') text);
          dedash = str_join (py ''_'') (str_split (of_char CHR ''-'') decomma);
          resu = str_join (py ''_'') (str_split_ws dedash)
      in resu)"

text \<open>
  A dict is the list of its items in insertion order; \<open>d[k] = v\<close> is \<open>AList.update k v d\<close>,
  \<open>len(d)\<close> the length of the list, and \<open>d[k]\<close> raises KeyError for a key that is not there.
\<close>

definition dict_get :: "('k \<times> 'v) list \<Rightarrow> 'k \<Rightarrow> error + 'v" where
  "dict_get d k = (case map_of d k of None \<Rightarrow> Inl KeyError | Some v \<Rightarrow> Inr v)"

definition opt_str :: "ustr option \<Rightarrow> 'f pyval" where
  "opt_str v = (case v of None \<Rightarrow> PNone | Some s \<Rightarrow> PStr s)"

text \<open>The affinity properties (lines 344--354); \<open>float\<close> may raise.\<close>

definition affinity_props ::
  "('n, 'f::zero) runtime \<Rightarrow> 'n activity_row \<Rightarrow> error + (string \<times> 'f pyval) list" where
  "affinity_props rt result =
     (case a_affinity result of
        Some a \<Rightarrow>
          (case to_float rt a of
             Inl e \<Rightarrow> Inl e
           | Inr f \<Rightarrow>
               Inr (AList.update ''affinity_parameter'' (opt_str (a_affinity_parameter result))
                     (AList.update ''affinity'' (PFloat f) [])))
      | None \<Rightarrow>
          Inr (AList.update ''affinity_parameter'' (PStr [])
                (AList.update ''affinity'' (PFloat 0) [])))"

definition get_edge_props ::
  "('n, 'f::zero) runtime \<Rightarrow> 'n activity_row
     \<Rightarrow> error + (ustr \<times> ustr list \<times> (string \<times> 'f pyval) list \<times> ustr option)" where
  "get_edge_props rt result =
     (let rel = (case a_pred result of
                   Some p \<Rightarrow>
                     if length p > 1 then str_lower (unicode_lower rt) (snakify p)
                     else py ''interacts_with''
                 | None \<Rightarrow> py ''interacts_with'');
          relation = py ''GAMMA:'' @ rel;
          provenance = (case a_dtype result of
                          Some d \<Rightarrow> if length d > 0 then Some d else None
                        | None \<Rightarrow> None);
          pmids = (case a_pubmed_ids result of
                     Some p \<Rightarrow> map (\<lambda>r. py ''PMID:'' @ r) (str_split (of_char CHR ''|'') p)
                   | None \<Rightarrow> [])
      in case affinity_props rt result of
           Inl e \<Rightarrow> Inl e
         | Inr props \<Rightarrow> Inr (relation, pmids, props, provenance))"

subsection \<open>Rows of the node list, nodes and edges\<close>

text \<open>
  One dict of \<open>node_list\<close>, which becomes one row of the data frame with the columns
  \<open>grp\<close>, \<open>node_num\<close>, \<open>id\<close> (here \<open>ident\<close>), \<open>name\<close>, ... A dict with \<open>node_num\<close> 1
  has no key from \<open>predicate\<close> on; the data frame holds NaN there, which the model
  writes \<open>None\<close> (\<open>PNone\<close> for the two affinity cells) like a cell holding \<open>None\<close>. The
  key \<open>name\<close> is in every dict, so \<open>name = None\<close> is Python's \<open>None\<close>.
\<close>

record 'f flat_record =
  grp :: ustr
  node_num :: int
  ident :: ustr
  name :: "ustr option"
  category :: ustr
  equivalent_identifiers :: ustr
  predicate :: "ustr option"
  relation :: "ustr option"
  edge_label :: "ustr option"
  pmids :: "ustr list option"
  affinity :: "'f pyval"
  affinity_parameter :: "'f pyval"
  provenance :: "ustr option"

text \<open>
  Modelled from the spec: \<open>kgxnode\<close> and \<open>kgxedge\<close> (Common.kgxmodel) are not among the
  source files. The spec's Node has an identifier and a name, its Edge a subject and an
  object identifier, predicate, relation, properties, primary knowledge source and
  aggregator knowledge sources; the records hold what the loader passes to the two
  constructors.
\<close>

record kgxnode =
  node_identifier :: ustr
  node_name :: ustr

record 'f edge_props =
  publications :: "ustr list option"
  ep_affinity :: "'f pyval"
  ep_affinity_parameter :: "'f pyval"

record 'f kgxedge =
  subject_id :: ustr
  object_id :: ustr
  edge_relation :: "ustr option"
  edge_predicate :: "ustr option"
  edgeprops :: "'f edge_props"
  primary_knowledge_source :: "ustr option"
  aggregator_knowledge_sources :: "ustr list"

text \<open>What the loader hands to its logger: the level and what the message reports.\<close>

datatype level = DEBUG | INFO | WARNING | ERROR

datatype message =
    Similar_gene_to_disease ustr ustr
  | Creating_nodes_and_edges
  | Nodes_and_edges_found nat nat
  | No_records_found
  | Node_group_mismatch nat

text \<open>
  The state of a \<open>PHAROSLoader\<close> that the parse reads or writes: the two counters and
  the two output lists of \<open>__init__\<close>, the calls made to the logger, and how many numbers
  have been drawn from the random number generator.
\<close>

record 'f loader =
  total_nodes :: int
  total_edges :: int
  final_node_list :: "kgxnode list"
  final_edge_list :: "'f kgxedge list"
  logged :: "(level \<times> message) list"
  draws :: nat

definition init_loader :: "'f loader" where
  "init_loader =
     \<lparr>total_nodes = 0, total_edges = 0, final_node_list = [], final_edge_list = [],
      logged = [], draws = 0\<rparr>"

definition provenance_id :: ustr where
  "provenance_id = py ''infores:pharos''"

definition log_call :: "level \<Rightarrow> message \<Rightarrow> 'f loader \<Rightarrow> 'f loader" where
  "log_call lv m s = s\<lparr>logged := logged s @ [(lv, m)]\<rparr>"

subsection \<open>Group keys (lines 206--208, 257--259, 303--305)\<close>

text \<open>
  \<open>grp = a + b + c + f'{random.random()}'\<close>, then its MD5 digest in hexadecimal. The
  draw advances the generator.
\<close>

definition group_key :: "('n, 'f) runtime \<Rightarrow> ustr \<Rightarrow> nat \<Rightarrow> error + ustr" where
  "group_key rt business k = md5_hex (business @ py (random rt k))"

subsection \<open>parse\_gene\_to\_disease\<close>

text \<open>
  The body of the loop for one row. The locals are \<open>node_list\<close>, \<open>record_counter\<close> and
  \<open>skipped_record_counter\<close>. \<open>gene + 'WD:P2293'\<close> raises TypeError for a gene that is
  \<open>None\<close>, before the number is drawn.
\<close>

definition disease_node_1 :: "ustr \<Rightarrow> ustr \<Rightarrow> ustr option \<Rightarrow> 'f flat_record" where
  "disease_node_1 g gene gene_sym =
     \<lparr>grp = g, node_num = 1, ident = gene, name = gene_sym, category = [],
      equivalent_identifiers = [], predicate = None, relation = None, edge_label = None,
      pmids = None, affinity = PNone, affinity_parameter = PNone, provenance = None\<rparr>"

definition disease_node_2 ::
  "ustr \<Rightarrow> ustr \<Rightarrow> ustr option \<Rightarrow> ustr option \<Rightarrow> 'f flat_record" where
  "disease_node_2 g did nm prov =
     \<lparr>grp = g, node_num = 2, ident = did, name = nm, category = [],
      equivalent_identifiers = [],
      predicate = Some (py ''biolink:gene_associated_with_condition''),
      relation = Some (py ''WD:P2293''),
      edge_label = Some (py ''gene_associated_with_condition''),
      pmids = Some [], affinity = PInt 0, affinity_parameter = PStr [],
      provenance = prov\<rparr>"

definition disease_item ::
  "('n, 'f) runtime \<Rightarrow> disease_row \<Rightarrow> 'f flat_record list \<times> nat \<times> nat \<Rightarrow> 'f loader
     \<Rightarrow> 'f loader \<times> (error + 'f flat_record list \<times> nat \<times> nat)" where
  "disease_item rt item acc s =
     (case acc of (node_list, record_counter, skipped_record_counter) \<Rightarrow>
        (case d_did item of
           None \<Rightarrow> (s, Inr (node_list, record_counter + 1, skipped_record_counter + 1))
         | Some raw \<Rightarrow>
             (case normalize_did (unicode_nd rt) raw of
                Inl e \<Rightarrow> (s, Inl e)
              | Inr did \<Rightarrow>
                  (case d_value item of
                     None \<Rightarrow> (s, Inl TypeError)
                   | Some gene \<Rightarrow>
                       (case group_key rt (gene @ py ''WD:P2293'' @ did) (draws s) of
                          Inl e \<Rightarrow> (s\<lparr>draws := draws s + 1\<rparr>, Inl e)
                        | Inr g \<Rightarrow>
                            if did = gene then
                              (log_call ERROR (Similar_gene_to_disease did gene)
                                 (s\<lparr>draws := draws s + 1\<rparr>),
                               Inr (node_list, record_counter + 1, skipped_record_counter))
                            else
                              (s\<lparr>draws := draws s + 1\<rparr>,
                               Inr (node_list
                                      @ [disease_node_1 g gene (d_sym item),
                                         disease_node_2 g did (d_name item) (d_dtype item)],
                                    record_counter + 1, skipped_record_counter)))))))"

text \<open>
  A \<open>for\<close> loop whose body may raise: the first exception ends it, with the state as
  it then is.
\<close>

fun for_each ::
  "('a \<Rightarrow> 'b \<Rightarrow> 's \<Rightarrow> 's \<times> (error + 'b)) \<Rightarrow> 'a list \<Rightarrow> 'b \<Rightarrow> 's \<Rightarrow> 's \<times> (error + 'b)" where
  "for_each body [] acc s = (s, Inr acc)"
| "for_each body (item # items) acc s =
     (case body item acc s of
        (s', Inl e) \<Rightarrow> (s', Inl e)
      | (s', Inr acc') \<Rightarrow> for_each body items acc' s')"

text \<open>\<open>gene_to_disease\<close> is what \<open>execute_pharos_sql\<close> returned.\<close>

definition parse_gene_to_disease ::
  "('n, 'f) runtime \<Rightarrow> disease_row list \<Rightarrow> 'f flat_record list \<Rightarrow> 'f loader
     \<Rightarrow> 'f loader \<times> (error + 'f flat_record list \<times> nat \<times> nat)" where
  "parse_gene_to_disease rt gene_to_disease node_list s =
     for_each (disease_item rt) gene_to_disease (node_list, 0, 0) s"

subsection \<open>parse\_gene\_to\_drug\_activity and parse\_gene\_to\_cmpd\_activity\<close>

definition prefixmap :: "(ustr \<times> ustr) list" where
  "prefixmap =
     [(py ''ChEMBL'', py ''CHEMBL.COMPOUND:CHEMBL''),
      (py ''Guide to Pharmacology'', py ''GTOPDB:'')]"

text \<open>
  \<open>f"{prefixmap[item['id_src']]}{item['cid'].replace('CHEMBL', '')}"\<close> (lines 246 and
  292): the lookup comes first and raises KeyError for a tag that is not a key, \<open>None\<close>
  included; \<open>None.replace\<close> raises AttributeError.
\<close>

definition compound_id :: "'n activity_row \<Rightarrow> error + ustr" where
  "compound_id item =
     (case (case a_id_src item of None \<Rightarrow> Inl KeyError | Some tag \<Rightarrow> dict_get prefixmap tag) of
        Inl e \<Rightarrow> Inl e
      | Inr prefix \<Rightarrow>
          (case a_cid item of
             None \<Rightarrow> Inl AttributeError
           | Some cid \<Rightarrow> Inr (prefix @ str_replace cid (py ''CHEMBL'') [])))"

text \<open>Lines 249--255 and 295--301: the affinity and its parameter, from \<open>props\<close>.\<close>

definition affinity_of ::
  "(string \<times> 'f pyval) list \<Rightarrow> error + 'f pyval \<times> 'f pyval" where
  "affinity_of props =
     (if length props = 2 then
        (case dict_get props ''affinity'' of
           Inl e \<Rightarrow> Inl e
         | Inr a \<Rightarrow>
             (case dict_get props ''affinity_parameter'' of
                Inl e \<Rightarrow> Inl e
              | Inr p \<Rightarrow> Inr (a, p)))
      else Inr (PInt 0, PNone))"

definition activity_node_1 :: "ustr \<Rightarrow> ustr \<Rightarrow> ustr option \<Rightarrow> 'f flat_record" where
  "activity_node_1 g i nm =
     \<lparr>grp = g, node_num = 1, ident = i, name = nm, category = [],
      equivalent_identifiers = [], predicate = None, relation = None, edge_label = None,
      pmids = None, affinity = PNone, affinity_parameter = PNone, provenance = None\<rparr>"

definition activity_node_2 ::
  "ustr \<Rightarrow> ustr \<Rightarrow> ustr option \<Rightarrow> ustr \<Rightarrow> ustr list \<Rightarrow> 'f pyval \<Rightarrow> 'f pyval \<Rightarrow> ustr option
     \<Rightarrow> 'f flat_record" where
  "activity_node_2 g i nm rel pm aff affp prov =
     \<lparr>grp = g, node_num = 2, ident = i, name = nm, category = [],
      equivalent_identifiers = [], predicate = Some [], relation = Some rel,
      edge_label = Some [], pmids = Some pm, affinity = aff, affinity_parameter = affp,
      provenance = prov\<rparr>"

definition drug_item ::
  "('n, 'f::zero) runtime \<Rightarrow> 'n activity_row \<Rightarrow> 'f flat_record list \<times> nat \<times> nat \<Rightarrow> 'f loader
     \<Rightarrow> 'f loader \<times> (error + 'f flat_record list \<times> nat \<times> nat)" where
  "drug_item rt item acc s =
     (case acc of (node_list, record_counter, skipped_record_counter) \<Rightarrow>
        (case compound_id item of
           Inl e \<Rightarrow> (s, Inl e)
         | Inr drug_id \<Rightarrow>
             (case get_edge_props rt item of
                Inl e \<Rightarrow> (s, Inl e)
              | Inr (rel, pm, props, prov) \<Rightarrow>
                  (case affinity_of props of
                     Inl e \<Rightarrow> (s, Inl e)
                   | Inr (aff, affp) \<Rightarrow>
                       (case a_value item of
                          None \<Rightarrow> (s, Inl TypeError)
                        | Some gene \<Rightarrow>
                            (case group_key rt (drug_id @ rel @ gene) (draws s) of
                               Inl e \<Rightarrow> (s\<lparr>draws := draws s + 1\<rparr>, Inl e)
                             | Inr g \<Rightarrow>
                                 (s\<lparr>draws := draws s + 1\<rparr>,
                                  Inr (node_list
                                         @ [activity_node_1 g drug_id (a_drug item),
                                            activity_node_2 g gene (a_sym item) rel pm aff affp
                                              prov],
                                       record_counter + 1, skipped_record_counter))))))))"

definition parse_gene_to_drug_activity ::
  "('n, 'f::zero) runtime \<Rightarrow> 'n activity_row list \<Rightarrow> 'f flat_record list \<Rightarrow> 'f loader
     \<Rightarrow> 'f loader \<times> (error + 'f flat_record list \<times> nat \<times> nat)" where
  "parse_gene_to_drug_activity rt gene_to_drug_activity node_list s =
     for_each (drug_item rt) gene_to_drug_activity (node_list, 0, 0) s"

definition cmpd_item ::
  "('n, 'f::zero) runtime \<Rightarrow> 'n activity_row \<Rightarrow> 'f flat_record list \<times> nat \<times> nat \<Rightarrow> 'f loader
     \<Rightarrow> 'f loader \<times> (error + 'f flat_record list \<times> nat \<times> nat)" where
  "cmpd_item rt item acc s =
     (case acc of (node_list, record_counter, skipped_record_counter) \<Rightarrow>
        (case compound_id item of
           Inl e \<Rightarrow> (s, Inl e)
         | Inr cmpd_id \<Rightarrow>
             (case get_edge_props rt item of
                Inl e \<Rightarrow> (s, Inl e)
              | Inr (rel, pm, props, prov) \<Rightarrow>
                  (case affinity_of props of
                     Inl e \<Rightarrow> (s, Inl e)
                   | Inr (aff, affp) \<Rightarrow>
                       (case a_value item of
                          None \<Rightarrow> (s, Inl TypeError)
                        | Some gene \<Rightarrow>
                            (case group_key rt (cmpd_id @ rel @ gene) (draws s) of
                               Inl e \<Rightarrow> (s\<lparr>draws := draws s + 1\<rparr>, Inl e)
                             | Inr g \<Rightarrow>
                                 (s\<lparr>draws := draws s + 1\<rparr>,
                                  Inr (node_list
                                         @ [activity_node_1 g gene (a_sym item),
                                            activity_node_2 g cmpd_id (a_drug item) rel pm aff
                                              affp prov],
                                       record_counter + 1, skipped_record_counter))))))))"

definition parse_gene_to_cmpd_activity ::
  "('n, 'f::zero) runtime \<Rightarrow> 'n activity_row list \<Rightarrow> 'f flat_record list \<Rightarrow> 'f loader
     \<Rightarrow> 'f loader \<times> (error + 'f flat_record list \<times> nat \<times> nat)" where
  "parse_gene_to_cmpd_activity rt gene_to_cmpd_activity node_list s =
     for_each (cmpd_item rt) gene_to_cmpd_activity (node_list, 0, 0) s"

subsection \<open>Name sanitization (get\_nodes\_and\_edges, lines 423 and 437)\<close>

text \<open>\<open>''.join([x if ord(x) < 128 else '?' for x in name])\<close>.\<close>

definition sanitize :: "ustr \<Rightarrow> ustr" where
  "sanitize nm = concat (map (\<lambda>x. if x < 128 then [x] else py ''?'') nm)"

subsection \<open>get\_nodes\_and\_edges\<close>

text \<open>
  \<open>df.set_index('grp').groupby('grp')\<close>: one group for each key, the keys in ascending
  order (code point by code point, as Python compares strings), the rows of a group in
  the order of the data frame.
\<close>

definition groupby_grp :: "'f flat_record list \<Rightarrow> (ustr \<times> 'f flat_record list) list" where
  "groupby_grp df =
     map (\<lambda>k. (k, filter (\<lambda>row. grp row = k) df)) (sort (remdups (map grp df)))"

text \<open>
  Lines 415--428: the first row with \<open>node_num\<close> 1 and a name that is not \<open>None\<close> gives
  \<open>node_1_id\<close> and the first node, and ends the loop; \<open>node_1_id\<close> stays \<open>''\<close> when
  there is none.
\<close>

fun find_node_1 :: "'f flat_record list \<Rightarrow> 'f loader \<Rightarrow> ustr \<times> 'f loader" where
  "find_node_1 [] s = ([], s)"
| "find_node_1 (row # rows) s =
     (if node_num row = 1 then
        (case name row of
           Some nm \<Rightarrow>
             (ident row,
              s\<lparr>final_node_list :=
                   final_node_list s
                     @ [\<lparr>node_identifier = ident row, node_name = sanitize nm\<rparr>]\<rparr>)
         | None \<Rightarrow> find_node_1 rows s)
      else find_node_1 rows s)"

definition new_edge :: "ustr \<Rightarrow> 'f flat_record \<Rightarrow> 'f kgxedge" where
  "new_edge node_1_id row =
     \<lparr>subject_id = node_1_id, object_id = ident row, edge_relation = relation row,
      edge_predicate = predicate row,
      edgeprops = \<lparr>publications = pmids row, ep_affinity = affinity row,
                   ep_affinity_parameter = affinity_parameter row\<rparr>,
      primary_knowledge_source = provenance row,
      aggregator_knowledge_sources = [provenance_id]\<rparr>"

text \<open>
  Lines 433--452: every row whose \<open>node_num\<close> is not 1 gives a node and an edge.
  Iterating over a name that is \<open>None\<close> raises TypeError.
\<close>

fun add_objects ::
  "ustr \<Rightarrow> 'f flat_record list \<Rightarrow> 'f loader \<Rightarrow> 'f loader \<times> error option" where
  "add_objects node_1_id [] s = (s, None)"
| "add_objects node_1_id (row # rows) s =
     (if node_num row \<noteq> 1 then
        (case name row of
           None \<Rightarrow> (s, Some TypeError)
         | Some nm \<Rightarrow>
             add_objects node_1_id rows
               (s\<lparr>final_node_list :=
                    final_node_list s
                      @ [\<lparr>node_identifier = ident row, node_name = sanitize nm\<rparr>],
                  final_edge_list := final_edge_list s @ [new_edge node_1_id row]\<rparr>))
      else add_objects node_1_id rows s)"

text \<open>The body of the loop over the groups (lines 409--454).\<close>

definition process_group :: "'f flat_record list \<Rightarrow> 'f loader \<Rightarrow> 'f loader \<times> error option" where
  "process_group rows s =
     (if length rows = 2 then
        (case find_node_1 rows s of
           (node_1_id, s') \<Rightarrow>
             if node_1_id \<noteq> [] then add_objects node_1_id rows s' else (s', None))
      else (log_call DEBUG (Node_group_mismatch (length rows)) s, None))"

fun for_groups ::
  "(ustr \<times> 'f flat_record list) list \<Rightarrow> 'f loader \<Rightarrow> 'f loader \<times> error option" where
  "for_groups [] s = (s, None)"
| "for_groups ((row_index, rows) # groups) s =
     (case process_group rows s of
        (s', None) \<Rightarrow> for_groups groups s'
      | (s', Some e) \<Rightarrow> (s', Some e))"

definition get_nodes_and_edges :: "'f flat_record list \<Rightarrow> 'f loader \<Rightarrow> 'f loader \<times> error option" where
  "get_nodes_and_edges df s = for_groups (groupby_grp df) s"

subsection \<open>parse\_data\<close>

text \<open>The three query results, as \<open>execute_pharos_sql\<close> returns them.\<close>

record 'n pharos_db =
  gene_to_disease :: "disease_row list"
  gene_to_drug_activity :: "'n activity_row list"
  gene_to_cmpd_activity :: "'n activity_row list"

definition load_metadata :: "nat \<Rightarrow> nat \<Rightarrow> (string \<times> nat) list" where
  "load_metadata final_record_count final_skipped_count =
     [(''num_source_lines'', final_record_count),
      (''unusable_source_lines'', final_skipped_count)]"

text \<open>
  Lines 141--153: the data frame is the node list. \<open>pd.DataFrame\<close> gives the column
  \<open>affinity\<close> the type float64, since the rows with \<open>node_num\<close> 1 hold NaN there: the
  \<open>0\<close> of a disease row reaches its edge as \<open>0.0\<close>. The model keeps the cell as the
  parser wrote it: where an edge below shows \<open>PInt 0\<close>, the loader's edge holds \<open>0.0\<close>.
  The properties proved are about the number of nodes and edges and their identifiers.
\<close>

definition create_nodes_and_edges ::
  "'f flat_record list \<Rightarrow> 'f loader \<Rightarrow> 'f loader \<times> error option" where
  "create_nodes_and_edges node_list s =
     (if length node_list > 0 then
        (case get_nodes_and_edges node_list (log_call DEBUG Creating_nodes_and_edges s) of
           (s', Some e) \<Rightarrow> (s', Some e)
         | (s', None) \<Rightarrow>
             (log_call DEBUG
                (Nodes_and_edges_found (length (final_node_list s'))
                   (length (final_edge_list s'))) s',
              None))
      else (log_call WARNING No_records_found s, None))"

definition parse_data ::
  "('n, 'f::zero) runtime \<Rightarrow> 'n pharos_db \<Rightarrow> 'f loader
     \<Rightarrow> 'f loader \<times> (error + (string \<times> nat) list)" where
  "parse_data rt db s =
     (case parse_gene_to_disease rt (gene_to_disease db) [] s of
        (s1, Inl e) \<Rightarrow> (s1, Inl e)
      | (s1, Inr (node_list1, records1, skipped1)) \<Rightarrow>
     (case parse_gene_to_drug_activity rt (gene_to_drug_activity db) node_list1 s1 of
        (s2, Inl e) \<Rightarrow> (s2, Inl e)
      | (s2, Inr (node_list2, records2, skipped2)) \<Rightarrow>
     (case parse_gene_to_cmpd_activity rt (gene_to_cmpd_activity db) node_list2 s2 of
        (s3, Inl e) \<Rightarrow> (s3, Inl e)
      | (s3, Inr (node_list3, records3, skipped3)) \<Rightarrow>
     (case create_nodes_and_edges node_list3 s3 of
        (s4, Some e) \<Rightarrow> (s4, Inl e)
      | (s4, None) \<Rightarrow>
          (s4, Inr (load_metadata (0 + records1 + records2 + records3)
                      (0 + skipped1 + skipped2 + skipped3)))))))"

subsection \<open>A run on ASCII input\<close>

text \<open>
  The examples below are runs on ASCII strings, on which the Unicode tables are never
  consulted, and on whole numbers, which \<open>float\<close> represents exactly. The first three
  draws of the generator are 0.5, 0.25 and 0.125.
\<close>

definition ascii_runtime :: "(int, int) runtime" where
  "ascii_runtime =
     \<lparr>unicode_nd = (\<lambda>c. False), unicode_lower = (\<lambda>s i. [s ! i]), to_float = (\<lambda>n. Inr n),
      random = (\<lambda>k. if k = 0 then ''0.5'' else if k = 1 then ''0.25'' else ''0.125'')\<rparr>"

definition activity ::
  "string \<Rightarrow> string \<Rightarrow> string \<Rightarrow> string \<Rightarrow> string \<Rightarrow> int option \<Rightarrow> ustr option
     \<Rightarrow> int activity_row" where
  "activity gene gene_sym drug cid id_src aff pred =
     \<lparr>a_value = Some (py gene), a_drug = Some (py drug), a_cid = Some (py cid),
      a_id_src = Some (py id_src), a_sym = Some (py gene_sym), a_affinity = aff,
      a_affinity_parameter = None, a_pred = pred, a_pubmed_ids = None,
      a_dtype = Some []\<rparr>"

subsection \<open>Notions used in the statements\<close>

text \<open>The output lists and the counters of \<open>s'\<close> are those of \<open>s\<close>.\<close>

definition same_output :: "'f loader \<Rightarrow> 'f loader \<Rightarrow> bool" where
  "same_output s s' =
     (final_node_list s' = final_node_list s \<and> final_edge_list s' = final_edge_list s
      \<and> total_nodes s' = total_nodes s \<and> total_edges s' = total_edges s)"

text \<open>
  A string that \<open>encode('utf-8')\<close> accepts: code points, none of them a surrogate. Text
  read from the database is of this kind.
\<close>

definition unicode_text :: "ustr \<Rightarrow> bool" where
  "unicode_text s = list_all (\<lambda>c. c < 0xD800 \<or> (0xE000 \<le> c \<and> c < 0x110000)) s"

definition disease :: "string \<Rightarrow> string \<Rightarrow> string \<Rightarrow> string \<Rightarrow> string \<Rightarrow> disease_row" where
  "disease gene did nm gene_sym dtype =
     \<lparr>d_value = Some (py gene), d_did = Some (py did), d_name = Some (py nm),
      d_sym = Some (py gene_sym), d_dtype = Some (py dtype)\<rparr>"

text \<open>
  Every edge of the output refers to nodes of the output; and \<open>s'\<close> has the output of
  \<open>s\<close> with more appended.
\<close>

definition edges_closed :: "'f loader \<Rightarrow> bool" where
  "edges_closed s =
     list_all
       (\<lambda>e. subject_id e \<in> set (map node_identifier (final_node_list s))
            \<and> object_id e \<in> set (map node_identifier (final_node_list s)))
       (final_edge_list s)"

definition grown_from :: "'f loader \<Rightarrow> 'f loader \<Rightarrow> bool" where
  "grown_from s s' =
     (take (length (final_node_list s)) (final_node_list s') = final_node_list s
      \<and> take (length (final_edge_list s)) (final_edge_list s') = final_edge_list s)"

text \<open>
  What one group adds to the output lists and to the log, and whether it raises: the
  group is run on a new loader.
\<close>

definition group_nodes :: "'f flat_record list \<Rightarrow> kgxnode list" where
  "group_nodes rows = final_node_list (fst (process_group rows (init_loader :: 'f loader)))"

definition group_edges :: "'f flat_record list \<Rightarrow> 'f kgxedge list" where
  "group_edges rows = final_edge_list (fst (process_group rows init_loader))"

definition group_logged :: "'f flat_record list \<Rightarrow> (level \<times> message) list" where
  "group_logged rows = logged (fst (process_group rows (init_loader :: 'f loader)))"

definition group_error :: "'f flat_record list \<Rightarrow> error option" where
  "group_error rows = snd (process_group rows (init_loader :: 'f loader))"

text \<open>\<open>s\<close> with the output and the log of \<open>d\<close> appended.\<close>

definition appended :: "'f loader \<Rightarrow> 'f loader \<Rightarrow> 'f loader" where
  "appended s d =
     s\<lparr>final_node_list := final_node_list s @ final_node_list d,
       final_edge_list := final_edge_list s @ final_edge_list d,
       logged := logged s @ logged d\<rparr>"

text \<open>A row without its group key, and a data frame's groups without their keys.\<close>

definition ungrouped :: "'f flat_record \<Rightarrow> 'f flat_record" where
  "ungrouped row = row\<lparr>grp := []\<rparr>"

definition rekey :: "(ustr \<Rightarrow> ustr) \<Rightarrow> 'f flat_record \<Rightarrow> 'f flat_record" where
  "rekey f row = row\<lparr>grp := f (grp row)\<rparr>"

text \<open>
  Two data frames hold the same rows apart from the keys, and their keys group the rows
  alike: rows with one key in the first have one key in the second, and conversely.
\<close>

definition same_grouping :: "'f flat_record list \<Rightarrow> 'f flat_record list \<Rightarrow> bool" where
  "same_grouping df1 df2 =
     (map ungrouped df1 = map ungrouped df2
      \<and> list_all
           (\<lambda>(a, b). list_all (\<lambda>(c, d). (a = c) = (b = d)) (zip (map grp df1) (map grp df2)))
           (zip (map grp df1) (map grp df2)))"

definition groups_of :: "'f flat_record list \<Rightarrow> 'f flat_record list multiset" where
  "groups_of df = image_mset (\<lambda>g. map ungrouped (snd g)) (mset (groupby_grp df))"

section \<open>Properties\<close>

lemma py_question: "py ''?'' = [63]"
  by (simp add: py_def)

lemma sanitize_map: "sanitize nm = map (\<lambda>x. if x < 128 then x else 63) nm"
  by (induction nm) (simp_all add: sanitize_def py_question)

text \<open>
  C7. For every input string, name sanitization replaces each character whose code point
  is at least 128 with a question mark and keeps every other character, so the output
  has the length of the input and holds no character with a code point of 128 or more.
\<close>

theorem sanitize_seven_bit:
  "length (sanitize nm) = length nm
   \<and> (\<forall>i < length nm. sanitize nm ! i = (if nm ! i < 128 then nm ! i else of_char CHR ''?''))
   \<and> (\<forall>c \<in> set (sanitize nm). c < 128)"
  by (auto simp add: sanitize_map)

theorem sanitize_seven_bit_witness:
  "length (sanitize [66, 233, 8364, 97]) = 4
   \<and> sanitize [66, 233, 8364, 97] = [66, 63, 63, 97]
   \<and> list_all (\<lambda>c. c < 128) (sanitize [66, 233, 8364, 97])"
  using sanitize_seven_bit [of "[66, 233, 8364, 97]"]
  by (simp add: sanitize_map)

subsection \<open>Splitting and joining\<close>

lemma str_split_nonempty: "str_split sep s \<noteq> []"
  by (induction s) (auto split: list.splits)

lemma str_join_Cons_Cons: "str_join sep ((x # p) # ps) = x # str_join sep (p # ps)"
  by (cases ps) simp_all

lemma str_join_Nil_Cons: "ps \<noteq> [] \<Longrightarrow> str_join sep ([] # ps) = sep @ str_join sep ps"
  by (cases ps) simp_all

lemma join_split: "str_join [r] (str_split sep s) = map (\<lambda>x. if x = sep then r else x) s"
proof (induction s)
  case Nil
  then show ?case by simp
next
  case (Cons x xs)
  obtain p ps where sp: "str_split sep xs = p # ps"
    using str_split_nonempty [of sep xs] by (cases "str_split sep xs") auto
  show ?case
  proof (cases "x = sep")
    case True
    with Cons sp show ?thesis by (simp add: str_join_Nil_Cons)
  next
    case False
    with Cons sp show ?thesis by (simp add: str_join_Cons_Cons)
  qed
qed

lemma hd_str_split: "hd (str_split sep s) = takeWhile (\<lambda>c. c \<noteq> sep) s"
  by (induction s) (auto split: list.splits simp: str_split_nonempty)

lemma str_split_append_sep:
  "sep \<notin> set p \<Longrightarrow> str_split sep (p @ sep # s) = p # str_split sep s"
  by (induction p) (auto split: list.splits)

lemma py_Orphanet: "py ''Orphanet:'' = py ''Orphanet'' @ [of_char CHR '':'']"
  by (simp add: py_def)

lemma orphanet_split:
  assumes "startswith did (py ''Orphanet:'')"
  shows "str_split (of_char CHR '':'') did
         = py ''Orphanet'' # str_split (of_char CHR '':'') (drop 9 did)"
proof -
  have "did = take 9 did @ drop 9 did" by simp
  moreover have "take 9 did = py ''Orphanet:''"
    using assms by (simp add: startswith_def py_def eval_nat_numeral)
  ultimately have "did = py ''Orphanet'' @ of_char CHR '':'' # drop 9 did"
    by (simp add: py_Orphanet)
  moreover have "of_char CHR '':'' \<notin> set (py ''Orphanet'')"
    by (simp add: py_def)
  ultimately show ?thesis
    using str_split_append_sep [of "of_char CHR '':''" "py ''Orphanet''" "drop 9 did"] by simp
qed

lemma normalize_did_orphanet:
  assumes "\<not> umls_pattern_match nd did" and "startswith did (py ''Orphanet:'')"
  shows "normalize_did nd did
         = Inr (py ''ORPHANET:'' @ takeWhile (\<lambda>c. c \<noteq> of_char CHR '':'') (drop 9 did))"
proof -
  obtain p ps where sp: "str_split (of_char CHR '':'') (drop 9 did) = p # ps"
    using str_split_nonempty [of "of_char CHR '':''" "drop 9 did"]
    by (cases "str_split (of_char CHR '':'') (drop 9 did)") auto
  have "p = takeWhile (\<lambda>c. c \<noteq> of_char CHR '':'') (drop 9 did)"
    using hd_str_split [of "of_char CHR '':''" "drop 9 did"] sp by simp
  then show ?thesis
    using assms sp orphanet_split [OF assms(2)] by (simp add: normalize_did_def)
qed

lemma umls_match_C_digits:
  assumes "ds \<noteq> []" and "\<forall>d \<in> set ds. 48 \<le> d \<and> d \<le> 57"
  shows "umls_pattern_match nd (of_char CHR ''C'' # ds)"
proof -
  have "\<forall>d \<in> set ds. isdecimal nd d"
    using assms(2) by (simp add: isdecimal_def)
  then show ?thesis
    using assms(1) by (cases ds) (auto simp add: umls_pattern_match_def)
qed

lemma umls_not_orphanet:
  "umls_pattern_match nd did \<Longrightarrow> \<not> startswith did (py ''Orphanet:'')"
  by (cases did) (auto simp add: umls_pattern_match_def startswith_def py_def)

text \<open>
  C5, as amended. Identifier normalization applies the first rule that matches and never
  rejects an identifier. The letter C followed by one or more decimal digits (and at most
  a final newline) gets the prefix \<open>UMLS:\<close>, so \<open>C1234\<close> becomes \<open>UMLS:C1234\<close>. An
  identifier that starts with \<open>Orphanet:\<close> becomes \<open>ORPHANET:\<close> followed by what stands
  between that prefix and the next colon: the whole suffix when it has no colon, so
  \<open>Orphanet:1234\<close> becomes \<open>ORPHANET:1234\<close>. Any other identifier, such as \<open>HGNC:5\<close>,
  is returned unchanged.
\<close>

theorem normalize_did_first_match:
  "(umls_pattern_match nd did \<longrightarrow> normalize_did nd did = Inr (py ''UMLS:'' @ did))
   \<and> (\<not> umls_pattern_match nd did \<and> startswith did (py ''Orphanet:'') \<longrightarrow>
        normalize_did nd did
        = Inr (py ''ORPHANET:'' @ takeWhile (\<lambda>c. c \<noteq> of_char CHR '':'') (drop 9 did)))
   \<and> (\<not> umls_pattern_match nd did \<and> \<not> startswith did (py ''Orphanet:'') \<longrightarrow>
        normalize_did nd did = Inr did)
   \<and> (\<exists>r. normalize_did nd did = Inr r)
   \<and> (\<forall>ds. ds \<noteq> [] \<and> (\<forall>d \<in> set ds. 48 \<le> d \<and> d \<le> 57) \<longrightarrow>
        normalize_did nd (of_char CHR ''C'' # ds) = Inr (py ''UMLS:C'' @ ds))
   \<and> (\<forall>sfx. of_char CHR '':'' \<notin> set sfx \<longrightarrow>
        normalize_did nd (py ''Orphanet:'' @ sfx) = Inr (py ''ORPHANET:'' @ sfx))
   \<and> normalize_did nd (py ''C1234'') = Inr (py ''UMLS:C1234'')
   \<and> normalize_did nd (py ''Orphanet:1234'') = Inr (py ''ORPHANET:1234'')
   \<and> normalize_did nd (py ''HGNC:5'') = Inr (py ''HGNC:5'')"
proof -
  have r1: "normalize_did nd did = Inr (py ''UMLS:'' @ did)" if "umls_pattern_match nd did"
    using that by (simp add: normalize_did_def)
  have r3: "normalize_did nd did = Inr did"
    if "\<not> umls_pattern_match nd did" "\<not> startswith did (py ''Orphanet:'')"
    using that by (simp add: normalize_did_def)
  have total: "\<exists>r. normalize_did nd did = Inr r"
    using r1 r3 normalize_did_orphanet [of nd did] by blast
  have digits: "normalize_did nd (of_char CHR ''C'' # ds) = Inr (py ''UMLS:C'' @ ds)"
    if "ds \<noteq> []" "\<forall>d \<in> set ds. 48 \<le> d \<and> d \<le> 57" for ds
    using umls_match_C_digits [OF that, of nd] by (simp add: normalize_did_def py_def)
  have kept: "normalize_did nd (py ''Orphanet:'' @ sfx) = Inr (py ''ORPHANET:'' @ sfx)"
    if "of_char CHR '':'' \<notin> set sfx" for sfx
  proof -
    have s: "startswith (py ''Orphanet:'' @ sfx) (py ''Orphanet:'')"
      by (simp add: startswith_def)
    then have "\<not> umls_pattern_match nd (py ''Orphanet:'' @ sfx)"
      using umls_not_orphanet by blast
    moreover have "drop 9 (py ''Orphanet:'' @ sfx) = sfx"
      by (simp add: py_def)
    moreover have "takeWhile (\<lambda>c. c \<noteq> of_char CHR '':'') sfx = sfx"
      using that by auto
    ultimately show ?thesis
      using normalize_did_orphanet [OF _ s, of nd] by simp
  qed
  have ex1: "normalize_did nd (py ''C1234'') = Inr (py ''UMLS:C1234'')"
    by (simp add: normalize_did_def umls_pattern_match_def py_def isdecimal_def)
  have ex2: "normalize_did nd (py ''Orphanet:1234'') = Inr (py ''ORPHANET:1234'')"
    by (simp add: normalize_did_def umls_pattern_match_def py_def isdecimal_def
        startswith_def)
  have ex3: "normalize_did nd (py ''HGNC:5'') = Inr (py ''HGNC:5'')"
    by (simp add: normalize_did_def umls_pattern_match_def py_def isdecimal_def
        startswith_def)
  show ?thesis
    using r1 r3 normalize_did_orphanet [of nd did] total digits kept ex1 ex2 ex3 by blast
qed

theorem normalize_did_first_match_witness:
  "umls_pattern_match (\<lambda>c. False) (py ''C1234'')
   \<and> normalize_did (\<lambda>c. False) (py ''C1234'') = Inr (py ''UMLS:C1234'')
   \<and> \<not> umls_pattern_match (\<lambda>c. False) (py ''Orphanet:12:34'')
   \<and> startswith (py ''Orphanet:12:34'') (py ''Orphanet:'')
   \<and> normalize_did (\<lambda>c. False) (py ''Orphanet:12:34'') = Inr (py ''ORPHANET:12'')
   \<and> \<not> umls_pattern_match (\<lambda>c. False) (py ''HGNC:5'')
   \<and> \<not> startswith (py ''HGNC:5'') (py ''Orphanet:'')
   \<and> normalize_did (\<lambda>c. False) (py ''HGNC:5'') = Inr (py ''HGNC:5'')
   \<and> normalize_did (\<lambda>c. False) (of_char CHR ''C'' # [48, 48, 57]) = Inr (py ''UMLS:C009'')
   \<and> normalize_did (\<lambda>c. False) (py ''Orphanet:'' @ [53, 53, 56]) = Inr (py ''ORPHANET:558'')"
  using normalize_did_first_match [of "\<lambda>c. False" "py ''C1234''"]
    normalize_did_first_match [of "\<lambda>c. False" "py ''Orphanet:12:34''"]
    normalize_did_first_match [of "\<lambda>c. False" "py ''HGNC:5''"]
  by (simp add: umls_pattern_match_def startswith_def py_def isdecimal_def)

text \<open>
  C5 as stated fails where the suffix holds a colon: the suffix is not kept. And of the
  letters only C, followed by digits, gets the prefix \<open>UMLS:\<close>.
\<close>

theorem normalize_did_suffix_counterexample:
  "normalize_did (\<lambda>c. False) (py ''Orphanet:'' @ py ''12:34'') = Inr (py ''ORPHANET:'' @ py ''12'')
   \<and> normalize_did (\<lambda>c. False) (py ''Orphanet:'' @ py ''12:34'')
       \<noteq> Inr (py ''ORPHANET:'' @ py ''12:34'')
   \<and> normalize_did (\<lambda>c. False) (py ''D1234'') = Inr (py ''D1234'')
   \<and> normalize_did (\<lambda>c. False) (py ''D1234'') \<noteq> Inr (py ''UMLS:D1234'')"
  by (simp add: normalize_did_def umls_pattern_match_def py_def isdecimal_def startswith_def)

subsection \<open>snakify\<close>

lemma py_underscore: "py ''_'' = [of_char CHR ''_'']"
  by (simp add: py_def)

lemma snakify_eq:
  "snakify text =
     str_join (py ''_'')
       (str_split_ws
          (map (\<lambda>c. if c = of_char CHR '','' \<or> c = of_char CHR ''-'' then of_char CHR ''_'' else c)
             text))"
  by (simp add: snakify_def py_underscore join_split) (rule arg_cong [where f = "str_join _"],
      rule arg_cong [where f = str_split_ws], simp)

lemma split_ws_from_fields:
  "f \<in> set (split_ws_from w s) \<Longrightarrow> set f \<subseteq> set w \<union> {c \<in> set s. \<not> isspace c}"
proof (induction s arbitrary: w)
  case Nil
  then show ?case by (simp split: if_splits)
next
  case (Cons x xs)
  show ?case
  proof (cases "isspace x")
    case True
    with Cons.prems have "f = w \<or> f \<in> set (split_ws_from [] xs)"
      by (auto split: if_splits)
    with Cons.IH [of "[]"] show ?thesis by auto
  next
    case False
    with Cons.prems have "f \<in> set (split_ws_from (w @ [x]) xs)" by simp
    with Cons.IH [of "w @ [x]"] False show ?thesis by auto
  qed
qed

lemma set_str_join: "set (str_join sep ps) \<subseteq> set sep \<union> \<Union> (set ` set ps)"
  by (induction sep ps rule: str_join.induct) auto

lemma snakify_clean:
  assumes "c \<in> set (snakify text)"
  shows "c \<noteq> of_char CHR '','' \<and> c \<noteq> of_char CHR ''-'' \<and> \<not> isspace c"
proof -
  let ?m = "map (\<lambda>c. if c = of_char CHR '','' \<or> c = of_char CHR ''-'' then of_char CHR ''_'' else c) text"
  have "c = of_char CHR ''_'' \<or> (\<exists>f \<in> set (str_split_ws ?m). c \<in> set f)"
    using assms set_str_join [of "py ''_''" "str_split_ws ?m"]
    by (auto simp add: snakify_eq py_underscore)
  then have "c = of_char CHR ''_'' \<or> (c \<in> set ?m \<and> \<not> isspace c)"
    using split_ws_from_fields [of _ "[]" ?m] by (auto simp add: str_split_ws_def)
  then show ?thesis
    by (auto simp add: isspace_def)
qed

lemma get_edge_props_rel:
  assumes "get_edge_props rt result = Inr (rel, pm, props, prov)"
  shows "rel = py ''GAMMA:''
           @ (case a_pred result of
                Some p \<Rightarrow> if 1 < length p then str_lower (unicode_lower rt) (snakify p)
                          else py ''interacts_with''
              | None \<Rightarrow> py ''interacts_with'')"
  using assms by (auto simp add: get_edge_props_def Let_def split: sum.splits)

lemma lower_part_of: "str_lower ul (snakify (py ''Part Of, Regulates'')) = py ''part_of__regulates''"
  by (simp add: snakify_def py_def str_split_ws_def isspace_def str_lower_def ascii_lower_def)

text \<open>
  C6, as amended. For a raw predicate of two or more characters, edge property resolution
  replaces every comma and every dash by an underscore, drops leading and trailing
  whitespace, replaces every remaining run of whitespace by one underscore (so that no
  comma, dash or whitespace is left), lower-cases the result and puts \<open>GAMMA:\<close> in front:
  \<open>Part Of, Regulates\<close> yields \<open>GAMMA:part_of__regulates\<close>, with two underscores for the
  comma and the blank after it. A predicate that is absent, or shorter than two
  characters, yields \<open>GAMMA:interacts_with\<close>.
\<close>

theorem get_edge_props_relation:
  "get_edge_props rt result = Inr (rel, pm, props, prov) \<Longrightarrow>
     rel = py ''GAMMA:''
           @ (case a_pred result of
                Some p \<Rightarrow>
                  if 1 < length p then
                    str_lower (unicode_lower rt)
                      (str_join (py ''_'')
                         (str_split_ws
                            (map (\<lambda>c. if c = of_char CHR '','' \<or> c = of_char CHR ''-''
                                      then of_char CHR ''_'' else c) p)))
                  else py ''interacts_with''
              | None \<Rightarrow> py ''interacts_with'')
     \<and> (\<forall>p. a_pred result = Some p \<longrightarrow>
            (\<forall>c \<in> set (snakify p).
               c \<noteq> of_char CHR '','' \<and> c \<noteq> of_char CHR ''-'' \<and> \<not> isspace c))
     \<and> (a_pred result = Some (py ''Part Of, Regulates'') \<longrightarrow>
            rel = py ''GAMMA:part_of__regulates'')
     \<and> (a_pred result = None \<longrightarrow> rel = py ''GAMMA:interacts_with'')"
proof -
  assume ret: "get_edge_props rt result = Inr (rel, pm, props, prov)"
  note r = get_edge_props_rel [OF ret]
  have a: "rel = py ''GAMMA:''
           @ (case a_pred result of
                Some p \<Rightarrow>
                  if 1 < length p then
                    str_lower (unicode_lower rt)
                      (str_join (py ''_'')
                         (str_split_ws
                            (map (\<lambda>c. if c = of_char CHR '','' \<or> c = of_char CHR ''-''
                                      then of_char CHR ''_'' else c) p)))
                  else py ''interacts_with''
              | None \<Rightarrow> py ''interacts_with'')"
    using r by (simp add: snakify_eq split: option.splits)
  have b: "rel = py ''GAMMA:part_of__regulates''"
    if "a_pred result = Some (py ''Part Of, Regulates'')"
  proof -
    have "1 < length (py ''Part Of, Regulates'')" by (simp add: py_def)
    then have "rel = py ''GAMMA:'' @ py ''part_of__regulates''"
      using r that by (simp add: lower_part_of)
    then show ?thesis by (simp add: py_def)
  qed
  have c: "rel = py ''GAMMA:interacts_with''" if "a_pred result = None"
    using r that by (simp add: py_def)
  show ?thesis
    using a b c snakify_clean by blast
qed

theorem get_edge_props_relation_witness:
  "get_edge_props ascii_runtime
      (activity ''HGNC:5'' ''A1BG'' ''aspirin'' ''CHEMBL25'' ''ChEMBL'' None
         (Some (py ''Part Of, Regulates'')))
    = Inr (py ''GAMMA:part_of__regulates'', [],
           [(''affinity'', PFloat 0), (''affinity_parameter'', PStr [])], None)
   \<and> get_edge_props ascii_runtime
      (activity ''HGNC:5'' ''A1BG'' ''aspirin'' ''CHEMBL25'' ''ChEMBL'' None None)
    = Inr (py ''GAMMA:interacts_with'', [],
           [(''affinity'', PFloat 0), (''affinity_parameter'', PStr [])], None)"
proof -
  let ?r1 = "activity ''HGNC:5'' ''A1BG'' ''aspirin'' ''CHEMBL25'' ''ChEMBL'' None
         (Some (py ''Part Of, Regulates''))"
  let ?r2 = "activity ''HGNC:5'' ''A1BG'' ''aspirin'' ''CHEMBL25'' ''ChEMBL'' None None"
  let ?props = "[(''affinity'', PFloat (0::int)), (''affinity_parameter'', PStr [])]"
  have 1: "\<exists>rel. get_edge_props ascii_runtime ?r1 = Inr (rel, [], ?props, None)"
    by (simp add: get_edge_props_def affinity_props_def activity_def Let_def)
  have 2: "\<exists>rel. get_edge_props ascii_runtime ?r2 = Inr (rel, [], ?props, None)"
    by (simp add: get_edge_props_def affinity_props_def activity_def Let_def)
  from 1 obtain rel1 where e1: "get_edge_props ascii_runtime ?r1 = Inr (rel1, [], ?props, None)" ..
  from 2 obtain rel2 where e2: "get_edge_props ascii_runtime ?r2 = Inr (rel2, [], ?props, None)" ..
  have "a_pred ?r1 = Some (py ''Part Of, Regulates'') \<longrightarrow> rel1 = py ''GAMMA:part_of__regulates''"
    using get_edge_props_relation [OF e1] by blast
  then have "rel1 = py ''GAMMA:part_of__regulates''"
    by (simp add: activity_def)
  moreover have "a_pred ?r2 = None \<longrightarrow> rel2 = py ''GAMMA:interacts_with''"
    using get_edge_props_relation [OF e2] by blast
  then have "rel2 = py ''GAMMA:interacts_with''"
    by (simp add: activity_def)
  ultimately show ?thesis using e1 e2 by simp
qed

text \<open>
  C6 as stated fails on its own example: the comma and the blank after it give two
  underscores, not one.
\<close>

theorem get_edge_props_relation_counterexample:
  "get_edge_props ascii_runtime
      (activity ''HGNC:5'' ''A1BG'' ''aspirin'' ''CHEMBL25'' ''ChEMBL'' None
         (Some (py ''Part Of, Regulates'')))
    = Inr (py ''GAMMA:part_of__regulates'', [],
           [(''affinity'', PFloat 0), (''affinity_parameter'', PStr [])], None)
   \<and> py ''GAMMA:part_of__regulates'' \<noteq> py ''GAMMA:part_of_regulates''"
  by (simp add: get_edge_props_def affinity_props_def activity_def Let_def ascii_runtime_def
      snakify_def py_def str_split_ws_def isspace_def str_lower_def ascii_lower_def)

subsection \<open>The affinity properties\<close>

lemma affinity_props_shape:
  assumes "affinity_props rt item = Inr props"
  shows "\<exists>f p. props = [(''affinity'', PFloat f), (''affinity_parameter'', p)]"
  using assms by (auto simp add: affinity_props_def split: option.splits sum.splits)

lemma affinity_props_raises:
  assumes "affinity_props rt item = Inl e"
  shows "\<exists>a. a_affinity item = Some a \<and> to_float rt a = Inl e"
  using assms by (auto simp add: affinity_props_def split: option.splits sum.splits)

lemma get_edge_props_affinity:
  "get_edge_props rt item = Inr (rel, pm, props, prov) \<Longrightarrow> affinity_props rt item = Inr props"
  "get_edge_props rt item = Inl e \<Longrightarrow> affinity_props rt item = Inl e"
  by (auto simp add: get_edge_props_def Let_def split: sum.splits)

lemma affinity_of_shape:
  "affinity_of [(''affinity'', PFloat f), (''affinity_parameter'', p)] = Inr (PFloat f, p)"
  by (simp add: affinity_of_def dict_get_def)

lemma drug_item_affinity:
  assumes "drug_item rt item acc s = (s', Inr (nl, rc, sk))"
  shows "\<exists>f. affinity (last nl) = PFloat f"
proof -
  obtain nl0 rc0 sk0 where acc: "acc = (nl0, rc0, sk0)" by (cases acc)
  from assms obtain drug_id rel pm props prov aff affp gene g where
    ep: "get_edge_props rt item = Inr (rel, pm, props, prov)"
    and af: "affinity_of props = Inr (aff, affp)"
    and nl: "nl = nl0 @ [activity_node_1 g drug_id (a_drug item),
                         activity_node_2 g gene (a_sym item) rel pm aff affp prov]"
    unfolding drug_item_def acc
    by (auto split: sum.splits option.splits prod.splits)
  from affinity_props_shape [OF get_edge_props_affinity(1) [OF ep]] obtain f p where
    "props = [(''affinity'', PFloat f), (''affinity_parameter'', p)]" by blast
  with af have "aff = PFloat f" by (simp add: affinity_of_shape)
  with nl show ?thesis by (simp add: activity_node_2_def)
qed

lemma cmpd_item_affinity:
  assumes "cmpd_item rt item acc s = (s', Inr (nl, rc, sk))"
  shows "\<exists>f. affinity (last nl) = PFloat f"
proof -
  obtain nl0 rc0 sk0 where acc: "acc = (nl0, rc0, sk0)" by (cases acc)
  from assms obtain cmpd_id rel pm props prov aff affp gene g where
    ep: "get_edge_props rt item = Inr (rel, pm, props, prov)"
    and af: "affinity_of props = Inr (aff, affp)"
    and nl: "nl = nl0 @ [activity_node_1 g gene (a_sym item),
                         activity_node_2 g cmpd_id (a_drug item) rel pm aff affp prov]"
    unfolding cmpd_item_def acc
    by (auto split: sum.splits option.splits prod.splits)
  from affinity_props_shape [OF get_edge_props_affinity(1) [OF ep]] obtain f p where
    "props = [(''affinity'', PFloat f), (''affinity_parameter'', p)]" by blast
  with af have "aff = PFloat f" by (simp add: affinity_of_shape)
  with nl show ?thesis by (simp add: activity_node_2_def)
qed

text \<open>
  C10. Whenever edge property resolution returns (it raises only when \<open>float\<close> raises on
  the raw affinity), the affinity properties are a dict with exactly the two keys
  \<open>affinity\<close> and \<open>affinity_parameter\<close>, the first holding a float; an absent raw affinity
  gives 0.0 and the empty string. So the test \<open>len(props) == 2\<close> of the drug-activity
  and compound-activity parsers always holds: the affinity they write into a row is the
  float of \<open>props\<close>, never the 0 of the fallback branch.
\<close>

theorem affinity_props_two_keys:
  "(case get_edge_props rt item of
      Inl e \<Rightarrow> (\<exists>a. a_affinity item = Some a \<and> to_float rt a = Inl e)
    | Inr (rel, pm, props, prov) \<Rightarrow>
        map fst props = [''affinity'', ''affinity_parameter''] \<and> length props = 2
        \<and> (\<exists>f p. affinity_of props = Inr (PFloat f, p)
                 \<and> map_of props ''affinity'' = Some (PFloat f)
                 \<and> map_of props ''affinity_parameter'' = Some p))
   \<and> (a_affinity item = None \<longrightarrow>
        (\<exists>rel pm prov. get_edge_props rt item
           = Inr (rel, pm, [(''affinity'', PFloat 0), (''affinity_parameter'', PStr [])], prov)))
   \<and> (\<forall>acc s s' nl rc sk. drug_item rt item acc s = (s', Inr (nl, rc, sk)) \<longrightarrow>
        (\<exists>f. affinity (last nl) = PFloat f))
   \<and> (\<forall>acc s s' nl rc sk. cmpd_item rt item acc s = (s', Inr (nl, rc, sk)) \<longrightarrow>
        (\<exists>f. affinity (last nl) = PFloat f))"
proof -
  have a: "case get_edge_props rt item of
      Inl e \<Rightarrow> (\<exists>a. a_affinity item = Some a \<and> to_float rt a = Inl e)
    | Inr (rel, pm, props, prov) \<Rightarrow>
        map fst props = [''affinity'', ''affinity_parameter''] \<and> length props = 2
        \<and> (\<exists>f p. affinity_of props = Inr (PFloat f, p)
                 \<and> map_of props ''affinity'' = Some (PFloat f)
                 \<and> map_of props ''affinity_parameter'' = Some p)"
  proof (cases "get_edge_props rt item")
    case (Inl e)
    then show ?thesis
      using affinity_props_raises [OF get_edge_props_affinity(2) [OF Inl]] by simp
  next
    case (Inr r)
    obtain rel pm props prov where r: "r = (rel, pm, props, prov)" by (cases r)
    from affinity_props_shape [OF get_edge_props_affinity(1) [OF Inr [unfolded r]]]
    obtain f p where "props = [(''affinity'', PFloat f), (''affinity_parameter'', p)]"
      by blast
    then show ?thesis
      using Inr r by (simp add: affinity_of_shape)
  qed
  have b: "\<exists>rel pm prov. get_edge_props rt item
           = Inr (rel, pm, [(''affinity'', PFloat 0), (''affinity_parameter'', PStr [])], prov)"
    if "a_affinity item = None"
    using that by (simp add: get_edge_props_def affinity_props_def Let_def)
  show ?thesis
    using a b drug_item_affinity cmpd_item_affinity by blast
qed

theorem affinity_props_two_keys_witness:
  "get_edge_props ascii_runtime
      (activity ''HGNC:5'' ''A1BG'' ''aspirin'' ''CHEMBL25'' ''ChEMBL'' (Some 7) None)
    = Inr (py ''GAMMA:interacts_with'', [],
           [(''affinity'', PFloat 7), (''affinity_parameter'', PNone)], None)
   \<and> affinity_of [(''affinity'', PFloat (7::int)), (''affinity_parameter'', PNone)]
       = Inr (PFloat 7, PNone)
   \<and> get_edge_props ascii_runtime
      (activity ''HGNC:5'' ''A1BG'' ''aspirin'' ''CHEMBL25'' ''ChEMBL'' None None)
    = Inr (py ''GAMMA:interacts_with'', [],
           [(''affinity'', PFloat 0), (''affinity_parameter'', PStr [])], None)"
  using affinity_props_two_keys [where rt = ascii_runtime
      and item = "activity ''HGNC:5'' ''A1BG'' ''aspirin'' ''CHEMBL25'' ''ChEMBL'' (Some 7) None"]
    affinity_props_two_keys [where rt = ascii_runtime
      and item = "activity ''HGNC:5'' ''A1BG'' ''aspirin'' ''CHEMBL25'' ''ChEMBL'' None None"]
  by (simp add: get_edge_props_def affinity_props_def activity_def Let_def ascii_runtime_def
      opt_str_def affinity_of_def dict_get_def py_def)

subsection \<open>Loops that may raise\<close>

lemma for_each_append:
  "for_each body (pre @ rest) acc s =
     (case for_each body pre acc s of
        (s', Inl e) \<Rightarrow> (s', Inl e)
      | (s', Inr acc') \<Rightarrow> for_each body rest acc' s')"
  by (induction pre arbitrary: acc s) (auto split: prod.splits sum.splits)

lemma for_each_raises:
  assumes "item \<in> set items"
    and "\<And>acc s. \<exists>s' e. body item acc s = (s', Inl e)"
  shows "\<exists>s' e. for_each body items acc s = (s', Inl e)"
  using assms(1)
proof (induction items arbitrary: acc s)
  case Nil
  then show ?case by simp
next
  case (Cons x xs)
  show ?case
  proof (cases "body x acc s")
    case (Pair s1 r)
    show ?thesis
    proof (cases r)
      case (Inl e)
      with Pair show ?thesis by simp
    next
      case (Inr acc1)
      with Pair assms(2) [of acc s] have "x \<noteq> item" by auto
      with Cons.prems have "item \<in> set xs" by simp
      from Cons.IH [OF this, of acc1 s1] Pair Inr show ?thesis by simp
    qed
  qed
qed

lemma for_each_invariant:
  assumes "\<And>item acc s s' r. body item acc s = (s', r) \<Longrightarrow> P s \<Longrightarrow> P s'"
    and "for_each body items acc s = (s', r)" and "P s"
  shows "P s'"
  using assms(2,3)
proof (induction items arbitrary: acc s)
  case Nil
  then show ?case by simp
next
  case (Cons x xs)
  obtain s1 r1 where b: "body x acc s = (s1, r1)" by (cases "body x acc s")
  with assms(1) Cons.prems(2) have p1: "P s1" by blast
  show ?case
  proof (cases r1)
    case (Inl e)
    with b Cons.prems(1) p1 show ?thesis by simp
  next
    case (Inr acc1)
    with b Cons.prems(1) have "for_each body xs acc1 s1 = (s', r)" by simp
    from Cons.IH [OF this p1] show ?thesis .
  qed
qed

subsection \<open>The parsers leave the output lists alone\<close>

lemma disease_item_output:
  "disease_item rt item acc s = (s', r) \<Longrightarrow> same_output s0 s \<Longrightarrow> same_output s0 s'"
  by (auto simp add: disease_item_def same_output_def log_call_def
      split: prod.splits option.splits sum.splits if_splits)

lemma drug_item_output:
  "drug_item rt item acc s = (s', r) \<Longrightarrow> same_output s0 s \<Longrightarrow> same_output s0 s'"
  by (auto simp add: drug_item_def same_output_def
      split: prod.splits option.splits sum.splits if_splits)

lemma cmpd_item_output:
  "cmpd_item rt item acc s = (s', r) \<Longrightarrow> same_output s0 s \<Longrightarrow> same_output s0 s'"
  by (auto simp add: cmpd_item_def same_output_def
      split: prod.splits option.splits sum.splits if_splits)

lemma parse_gene_to_disease_output:
  "parse_gene_to_disease rt rows nl s = (s', r) \<Longrightarrow> same_output s0 s \<Longrightarrow> same_output s0 s'"
  unfolding parse_gene_to_disease_def
  by (rule for_each_invariant [where P = "same_output s0"]) (auto intro: disease_item_output)

lemma parse_gene_to_drug_activity_output:
  "parse_gene_to_drug_activity rt rows nl s = (s', r) \<Longrightarrow> same_output s0 s
     \<Longrightarrow> same_output s0 s'"
  unfolding parse_gene_to_drug_activity_def
  by (rule for_each_invariant [where P = "same_output s0"]) (auto intro: drug_item_output)

lemma parse_gene_to_cmpd_activity_output:
  "parse_gene_to_cmpd_activity rt rows nl s = (s', r) \<Longrightarrow> same_output s0 s
     \<Longrightarrow> same_output s0 s'"
  unfolding parse_gene_to_cmpd_activity_def
  by (rule for_each_invariant [where P = "same_output s0"]) (auto intro: cmpd_item_output)

subsection \<open>An unknown source tag\<close>

lemma compound_id_unknown:
  assumes "a_id_src item \<noteq> Some (py ''ChEMBL'')"
    and "a_id_src item \<noteq> Some (py ''Guide to Pharmacology'')"
  shows "compound_id item = Inl KeyError"
  using assms by (auto simp add: compound_id_def dict_get_def prefixmap_def split: option.splits)

lemma drug_item_unknown:
  assumes "compound_id item = Inl e"
  shows "drug_item rt item acc s = (s, Inl e)"
  using assms by (simp add: drug_item_def split: prod.splits)

lemma cmpd_item_unknown:
  assumes "compound_id item = Inl e"
  shows "cmpd_item rt item acc s = (s, Inl e)"
  using assms by (simp add: cmpd_item_def split: prod.splits)

lemma parse_data_drug_raises:
  assumes "\<And>nl s. \<exists>s' e. parse_gene_to_drug_activity rt (gene_to_drug_activity db) nl s = (s', Inl e)"
  shows "\<exists>s' e. parse_data rt db s = (s', Inl e) \<and> same_output s s'"
proof (cases "parse_gene_to_disease rt (gene_to_disease db) [] s")
  case (Pair s1 r1)
  have o1: "same_output s s1"
    using parse_gene_to_disease_output [OF Pair] by (simp add: same_output_def)
  show ?thesis
  proof (cases r1)
    case (Inl e)
    with Pair o1 show ?thesis by (simp add: parse_data_def)
  next
    case (Inr a1)
    obtain nl1 rc1 sk1 where a1: "a1 = (nl1, rc1, sk1)" by (cases a1)
    from assms [of nl1 s1] obtain s2 e where
      d: "parse_gene_to_drug_activity rt (gene_to_drug_activity db) nl1 s1 = (s2, Inl e)"
      by blast
    have "same_output s s2"
      using parse_gene_to_drug_activity_output [OF d o1] .
    with Pair Inr a1 d show ?thesis by (simp add: parse_data_def)
  qed
qed

lemma parse_data_cmpd_raises:
  assumes "\<And>nl s. \<exists>s' e. parse_gene_to_cmpd_activity rt (gene_to_cmpd_activity db) nl s = (s', Inl e)"
  shows "\<exists>s' e. parse_data rt db s = (s', Inl e) \<and> same_output s s'"
proof (cases "parse_gene_to_disease rt (gene_to_disease db) [] s")
  case (Pair s1 r1)
  have o1: "same_output s s1"
    using parse_gene_to_disease_output [OF Pair] by (simp add: same_output_def)
  show ?thesis
  proof (cases r1)
    case (Inl e)
    with Pair o1 show ?thesis by (simp add: parse_data_def)
  next
    case (Inr a1)
    obtain nl1 rc1 sk1 where a1: "a1 = (nl1, rc1, sk1)" by (cases a1)
    obtain s2 r2 where
      d: "parse_gene_to_drug_activity rt (gene_to_drug_activity db) nl1 s1 = (s2, r2)"
      by (cases "parse_gene_to_drug_activity rt (gene_to_drug_activity db) nl1 s1")
    have o2: "same_output s s2"
      using parse_gene_to_drug_activity_output [OF d o1] .
    show ?thesis
    proof (cases r2)
      case (Inl e)
      with Pair Inr a1 d o2 show ?thesis by (simp add: parse_data_def)
    next
      case (Inr a2)
      obtain nl2 rc2 sk2 where a2: "a2 = (nl2, rc2, sk2)" by (cases a2)
      from assms [of nl2 s2] obtain s3 e where
        c: "parse_gene_to_cmpd_activity rt (gene_to_cmpd_activity db) nl2 s2 = (s3, Inl e)"
        by blast
      have "same_output s s3"
        using parse_gene_to_cmpd_activity_output [OF c o2] .
      with Pair \<open>r1 = Inr a1\<close> a1 d Inr a2 c show ?thesis by (simp add: parse_data_def)
    qed
  qed
qed

text \<open>
  C8. A row of the drug-activity or compound-activity result whose source tag is not a
  key of the prefix table (\<open>ChEMBL\<close>, \<open>Guide to Pharmacology\<close>) makes the identifier
  construction raise KeyError. Nothing catches it: the parser that reads the row raises
  (KeyError itself when no earlier row raised), and so does \<open>parse_data\<close>, with the
  output lists of the loader as they were, so no node is emitted.
\<close>

theorem unknown_source_tag_aborts:
  assumes "a_id_src item \<noteq> Some (py ''ChEMBL'')"
    and "a_id_src item \<noteq> Some (py ''Guide to Pharmacology'')"
  shows "compound_id item = Inl KeyError
    \<and> drug_item rt item acc s = (s, Inl KeyError)
    \<and> cmpd_item rt item acc s = (s, Inl KeyError)
    \<and> (\<forall>pre post s1 r. parse_gene_to_drug_activity rt pre nl s = (s1, Inr r) \<longrightarrow>
          parse_gene_to_drug_activity rt (pre @ item # post) nl s = (s1, Inl KeyError))
    \<and> (\<forall>pre post s1 r. parse_gene_to_cmpd_activity rt pre nl s = (s1, Inr r) \<longrightarrow>
          parse_gene_to_cmpd_activity rt (pre @ item # post) nl s = (s1, Inl KeyError))
    \<and> (item \<in> set (gene_to_drug_activity db) \<or> item \<in> set (gene_to_cmpd_activity db) \<longrightarrow>
          (\<exists>s' e. parse_data rt db s = (s', Inl e)
             \<and> final_node_list s' = final_node_list s
             \<and> final_edge_list s' = final_edge_list s))"
proof -
  note k = compound_id_unknown [OF assms]
  have drug: "drug_item rt item acc s = (s, Inl KeyError)" for acc s
    using drug_item_unknown [OF k] .
  have cmpd: "cmpd_item rt item acc s = (s, Inl KeyError)" for acc s
    using cmpd_item_unknown [OF k] .
  have p1: "parse_gene_to_drug_activity rt (pre @ item # post) nl s = (s1, Inl KeyError)"
    if "parse_gene_to_drug_activity rt pre nl s = (s1, Inr r)" for pre post s1 r
    using that drug by (simp add: parse_gene_to_drug_activity_def for_each_append)
  have p2: "parse_gene_to_cmpd_activity rt (pre @ item # post) nl s = (s1, Inl KeyError)"
    if "parse_gene_to_cmpd_activity rt pre nl s = (s1, Inr r)" for pre post s1 r
    using that cmpd by (simp add: parse_gene_to_cmpd_activity_def for_each_append)
  have run: "\<exists>s' e. parse_data rt db s = (s', Inl e)
             \<and> final_node_list s' = final_node_list s
             \<and> final_edge_list s' = final_edge_list s"
    if "item \<in> set (gene_to_drug_activity db) \<or> item \<in> set (gene_to_cmpd_activity db)"
    using that
  proof
    assume i: "item \<in> set (gene_to_drug_activity db)"
    have "\<exists>s' e. parse_gene_to_drug_activity rt (gene_to_drug_activity db) nl s = (s', Inl e)"
      for nl s
      unfolding parse_gene_to_drug_activity_def
      using for_each_raises [OF i, of "drug_item rt"] drug by blast
    from parse_data_drug_raises [OF this, where s = s] show ?thesis
      by (auto simp add: same_output_def)
  next
    assume i: "item \<in> set (gene_to_cmpd_activity db)"
    have "\<exists>s' e. parse_gene_to_cmpd_activity rt (gene_to_cmpd_activity db) nl s = (s', Inl e)"
      for nl s
      unfolding parse_gene_to_cmpd_activity_def
      using for_each_raises [OF i, of "cmpd_item rt"] cmpd by blast
    from parse_data_cmpd_raises [OF this, where s = s] show ?thesis
      by (auto simp add: same_output_def)
  qed
  show ?thesis
    using k drug cmpd p1 p2 run by blast
qed

theorem unknown_source_tag_aborts_witness:
  "a_id_src (activity ''HGNC:5'' ''A1BG'' ''aspirin'' ''DB00945'' ''DrugBank'' None None)
     \<noteq> Some (py ''ChEMBL'')
   \<and> a_id_src (activity ''HGNC:5'' ''A1BG'' ''aspirin'' ''DB00945'' ''DrugBank'' None None)
     \<noteq> Some (py ''Guide to Pharmacology'')
   \<and> parse_data ascii_runtime
        \<lparr>gene_to_disease = [], gene_to_drug_activity = [],
         gene_to_cmpd_activity =
           [activity ''HGNC:5'' ''A1BG'' ''aspirin'' ''DB00945'' ''DrugBank'' None None]\<rparr>
        init_loader
      = (init_loader, Inl KeyError)"
proof -
  let ?item = "activity ''HGNC:5'' ''A1BG'' ''aspirin'' ''DB00945'' ''DrugBank'' None None"
  have a: "a_id_src ?item \<noteq> Some (py ''ChEMBL'')"
    and b: "a_id_src ?item \<noteq> Some (py ''Guide to Pharmacology'')"
    by (simp_all add: activity_def py_def)
  have "cmpd_item ascii_runtime ?item ([], 0, 0) init_loader = (init_loader, Inl KeyError)"
    using unknown_source_tag_aborts [OF a b] by blast
  then show ?thesis
    using a b
    by (simp add: parse_data_def parse_gene_to_disease_def parse_gene_to_drug_activity_def
        parse_gene_to_cmpd_activity_def)
qed

subsection \<open>Group keys\<close>

lemma utf8_char_ok: "(\<exists>bs. utf8_char c = Inr bs) \<longleftrightarrow> (c < 0xD800 \<or> (0xE000 \<le> c \<and> c < 0x110000))"
  by (auto simp add: utf8_char_def)

lemma encode_utf8_ok: "(\<exists>bs. encode_utf8 s = Inr bs) \<longleftrightarrow> unicode_text s"
proof (induction s)
  case Nil
  then show ?case by (simp add: unicode_text_def)
next
  case (Cons c cs)
  show ?case
  proof (cases "utf8_char c")
    case (Inl e)
    with utf8_char_ok [of c] show ?thesis by (auto simp add: unicode_text_def)
  next
    case (Inr bs)
    with utf8_char_ok [of c] Cons show ?thesis
      by (auto simp add: unicode_text_def split: sum.splits)
  qed
qed

lemma unicode_text_append [simp]:
  "unicode_text (a @ b) \<longleftrightarrow> unicode_text a \<and> unicode_text b"
  by (simp add: unicode_text_def)

lemma of_char_less_256: "(of_char c :: nat) < 256"
proof -
  have "(of_char c :: nat) mod 256 < 256" by simp
  then show ?thesis by (simp only: of_char_mod_256)
qed

lemma unicode_text_py [simp]: "unicode_text (py str)"
proof -
  have "(of_char c :: nat) < 0xD800" for c
    using of_char_less_256 [of c] by linarith
  then show ?thesis
    by (simp add: unicode_text_def py_def list_all_iff)
qed

lemma group_key_ok:
  assumes "unicode_text business"
  shows "\<exists>g. group_key rt business k = Inr g"
proof -
  have "unicode_text (business @ py (random rt k))" using assms by simp
  then obtain bs where "encode_utf8 (business @ py (random rt k)) = Inr bs"
    using encode_utf8_ok by blast
  then show ?thesis by (simp add: group_key_def md5_hex_def)
qed

subsection \<open>A disease that is the gene\<close>

text \<open>
  C9, as amended. A gene-to-disease row whose normalized disease identifier equals its
  gene identifier, and whose gene identifier holds no surrogate code point (so that
  \<open>grp.encode("utf-8")\<close> on line 208, which runs before the comparison of line 211, does
  not raise), is counted, draws its random number, is reported to the logger at level
  ERROR and adds no row to the node list; the loop goes on with the rows that follow, in
  \<open>parse_gene_to_disease\<close> after any rows that did not raise.
\<close>

theorem similar_gene_to_disease_skipped:
  assumes "d_did item = Some raw"
    and "normalize_did (unicode_nd rt) raw = Inr gene"
    and "d_value item = Some gene"
    and "unicode_text gene"
  shows "disease_item rt item (node_list, rc, sk) s
           = (log_call ERROR (Similar_gene_to_disease gene gene) (s\<lparr>draws := draws s + 1\<rparr>),
              Inr (node_list, rc + 1, sk))
    \<and> for_each (disease_item rt) (item # rest) (node_list, rc, sk) s
        = for_each (disease_item rt) rest (node_list, rc + 1, sk)
            (log_call ERROR (Similar_gene_to_disease gene gene) (s\<lparr>draws := draws s + 1\<rparr>))
    \<and> (\<forall>pre s1 nl1 rc1 sk1.
          parse_gene_to_disease rt pre nl0 s0 = (s1, Inr (nl1, rc1, sk1)) \<longrightarrow>
          parse_gene_to_disease rt (pre @ item # rest) nl0 s0
            = for_each (disease_item rt) rest (nl1, rc1 + 1, sk1)
                (log_call ERROR (Similar_gene_to_disease gene gene)
                   (s1\<lparr>draws := draws s1 + 1\<rparr>)))"
proof -
  have step: "disease_item rt item (nl, c, k) t
           = (log_call ERROR (Similar_gene_to_disease gene gene) (t\<lparr>draws := draws t + 1\<rparr>),
              Inr (nl, c + 1, k))" for nl c k t
  proof -
    have "unicode_text (gene @ py ''WD:P2293'' @ gene)"
      using assms(4) by simp
    from group_key_ok [OF this, of rt "draws t"] obtain g where
      "group_key rt (gene @ py ''WD:P2293'' @ gene) (draws t) = Inr g" by blast
    then show ?thesis
      using assms(1-3) by (simp add: disease_item_def)
  qed
  have "parse_gene_to_disease rt (pre @ item # rest) nl0 s0
            = for_each (disease_item rt) rest (nl1, rc1 + 1, sk1)
                (log_call ERROR (Similar_gene_to_disease gene gene)
                   (s1\<lparr>draws := draws s1 + 1\<rparr>))"
    if "parse_gene_to_disease rt pre nl0 s0 = (s1, Inr (nl1, rc1, sk1))"
    for pre s1 nl1 rc1 sk1
    using that step by (simp add: parse_gene_to_disease_def for_each_append)
  then show ?thesis
    using step by simp
qed

theorem similar_gene_to_disease_skipped_witness:
  "d_did (disease ''HGNC:5'' ''HGNC:5'' ''alpha-1-B'' ''A1BG'' ''CTD'') = Some (py ''HGNC:5'')
   \<and> normalize_did (unicode_nd ascii_runtime) (py ''HGNC:5'') = Inr (py ''HGNC:5'')
   \<and> d_value (disease ''HGNC:5'' ''HGNC:5'' ''alpha-1-B'' ''A1BG'' ''CTD'') = Some (py ''HGNC:5'')
   \<and> unicode_text (py ''HGNC:5'')
   \<and> parse_gene_to_disease ascii_runtime
         [disease ''HGNC:5'' ''HGNC:5'' ''alpha-1-B'' ''A1BG'' ''CTD''] [] init_loader
       = (init_loader\<lparr>logged := [(ERROR, Similar_gene_to_disease (py ''HGNC:5'') (py ''HGNC:5''))],
                       draws := 1\<rparr>,
          Inr ([], 1, 0))"
proof -
  let ?item = "disease ''HGNC:5'' ''HGNC:5'' ''alpha-1-B'' ''A1BG'' ''CTD''"
  have a: "d_did ?item = Some (py ''HGNC:5'')"
    and c: "d_value ?item = Some (py ''HGNC:5'')"
    by (simp_all add: disease_def)
  have b: "normalize_did (unicode_nd ascii_runtime) (py ''HGNC:5'') = Inr (py ''HGNC:5'')"
    by (simp add: normalize_did_def umls_pattern_match_def startswith_def py_def)
  have d: "unicode_text (py ''HGNC:5'')" by simp
  have "for_each (disease_item ascii_runtime) [?item] ([], 0, 0) init_loader
        = for_each (disease_item ascii_runtime) [] ([], 0 + 1, 0)
            (log_call ERROR (Similar_gene_to_disease (py ''HGNC:5'') (py ''HGNC:5''))
               (init_loader\<lparr>draws := draws (init_loader :: int loader) + 1\<rparr>))"
    by (rule similar_gene_to_disease_skipped [OF a b c d, THEN conjunct2, THEN conjunct1])
  then show ?thesis
    using a b c d by (simp add: parse_gene_to_disease_def log_call_def init_loader_def)
qed

text \<open>
  C9 as stated fails for a gene identifier that holds a surrogate code point: the
  disease identifier equals the gene identifier, but the group key is hashed first, the
  encoding raises UnicodeEncodeError, nothing is logged and the run aborts.
\<close>

theorem surrogate_gene_counterexample:
  "d_did \<lparr>d_value = Some [0xD800], d_did = Some [0xD800], d_name = Some (py ''n''),
          d_sym = Some (py ''G''), d_dtype = Some (py ''CTD'')\<rparr> = Some [0xD800]
   \<and> normalize_did (unicode_nd ascii_runtime) [0xD800] = Inr [0xD800]
   \<and> d_value \<lparr>d_value = Some [0xD800], d_did = Some [0xD800], d_name = Some (py ''n''),
          d_sym = Some (py ''G''), d_dtype = Some (py ''CTD'')\<rparr> = Some [0xD800]
   \<and> parse_gene_to_disease ascii_runtime
        [\<lparr>d_value = Some [0xD800], d_did = Some [0xD800], d_name = Some (py ''n''),
          d_sym = Some (py ''G''), d_dtype = Some (py ''CTD'')\<rparr>]
        [] init_loader
      = (\<lparr>total_nodes = 0, total_edges = 0, final_node_list = [], final_edge_list = [],
          logged = [], draws = 1\<rparr>,
         Inl UnicodeEncodeError)"
  by (simp add: parse_gene_to_disease_def disease_item_def ascii_runtime_def
      normalize_did_def umls_pattern_match_def startswith_def group_key_def md5_hex_def
      utf8_char_def init_loader_def py_def)

subsection \<open>One group\<close>

lemma for_groups_append:
  "for_groups (gs1 @ gs2) s =
     (case for_groups gs1 s of
        (s', None) \<Rightarrow> for_groups gs2 s'
      | (s', Some e) \<Rightarrow> (s', Some e))"
  by (induction gs1 arbitrary: s) (auto split: prod.splits option.splits)

lemma distinct_singleton_set:
  assumes "distinct xs" and "set xs = {k}"
  shows "xs = [k]"
proof (cases xs)
  case Nil
  with assms(2) show ?thesis by simp
next
  case (Cons x ys)
  with assms have "x = k" and "k \<notin> set ys" and "set ys \<subseteq> {k}" by auto
  then have "ys = []" by (cases ys) auto
  with Cons \<open>x = k\<close> show ?thesis by simp
qed

lemma groupby_grp_single:
  assumes "rows \<noteq> []" and "\<forall>row \<in> set rows. grp row = k"
  shows "groupby_grp rows = [(k, rows)]"
proof -
  have "set (map grp rows) = {k}"
    using assms by (cases rows) auto
  then have "sort (remdups (map grp rows)) = [k]"
    by (intro distinct_singleton_set) simp_all
  moreover have "filter (\<lambda>row. grp row = k) rows = rows"
    using assms(2) by simp
  ultimately show ?thesis by (simp add: groupby_grp_def)
qed

lemma process_group_pair:
  assumes "node_num r1 = 1" and "name r1 = Some n1" and "ident r1 \<noteq> []"
    and "node_num r2 \<noteq> 1" and "name r2 = Some n2"
    and "rows = [r1, r2] \<or> rows = [r2, r1]"
  shows "process_group rows s
         = (s\<lparr>final_node_list :=
                 final_node_list s
                   @ [\<lparr>node_identifier = ident r1, node_name = sanitize n1\<rparr>,
                      \<lparr>node_identifier = ident r2, node_name = sanitize n2\<rparr>],
               final_edge_list := final_edge_list s @ [new_edge (ident r1) r2]\<rparr>,
            None)"
  using assms by (auto simp add: process_group_def)

text \<open>
  C3, as amended. For every group of exactly one record with \<open>node_num\<close> 1 whose name is
  present and whose id is not empty, and exactly one record of another \<open>node_num\<close> whose
  name is present, in either order, materialization appends exactly two nodes and exactly
  one edge to the final collections; the edge's \<open>subject_id\<close> is the id of the first
  record's node and its \<open>object_id\<close> the id of the other record's node. This holds for the
  group on its own, for a data frame that consists of the group, and for the group
  anywhere in a pass whose earlier groups did not raise.
\<close>

theorem well_formed_group_two_nodes_one_edge:
  assumes "node_num r1 = 1" and "name r1 = Some n1" and "ident r1 \<noteq> []"
    and "node_num r2 \<noteq> 1" and "name r2 = Some n2"
    and "rows = [r1, r2] \<or> rows = [r2, r1]"
  shows "process_group rows s
         = (s\<lparr>final_node_list :=
                 final_node_list s
                   @ [\<lparr>node_identifier = ident r1, node_name = sanitize n1\<rparr>,
                      \<lparr>node_identifier = ident r2, node_name = sanitize n2\<rparr>],
               final_edge_list := final_edge_list s @ [new_edge (ident r1) r2]\<rparr>,
            None)
    \<and> subject_id (new_edge (ident r1) r2) = ident r1
    \<and> object_id (new_edge (ident r1) r2) = ident r2
    \<and> (grp r1 = grp r2 \<longrightarrow>
         get_nodes_and_edges rows s
         = (s\<lparr>final_node_list :=
                 final_node_list s
                   @ [\<lparr>node_identifier = ident r1, node_name = sanitize n1\<rparr>,
                      \<lparr>node_identifier = ident r2, node_name = sanitize n2\<rparr>],
               final_edge_list := final_edge_list s @ [new_edge (ident r1) r2]\<rparr>,
            None))
    \<and> (\<forall>before k after s0.
          for_groups before s0 = (s, None) \<longrightarrow>
          for_groups (before @ (k, rows) # after) s0
          = for_groups after
              (s\<lparr>final_node_list :=
                   final_node_list s
                     @ [\<lparr>node_identifier = ident r1, node_name = sanitize n1\<rparr>,
                        \<lparr>node_identifier = ident r2, node_name = sanitize n2\<rparr>],
                 final_edge_list := final_edge_list s @ [new_edge (ident r1) r2]\<rparr>))"
proof -
  note g = process_group_pair [OF assms, of s]
  have ids: "subject_id (new_edge (ident r1) r2) = ident r1
    \<and> object_id (new_edge (ident r1) r2) = ident r2"
    by (simp add: new_edge_def)
  have whole: "get_nodes_and_edges rows s
         = (s\<lparr>final_node_list :=
                 final_node_list s
                   @ [\<lparr>node_identifier = ident r1, node_name = sanitize n1\<rparr>,
                      \<lparr>node_identifier = ident r2, node_name = sanitize n2\<rparr>],
               final_edge_list := final_edge_list s @ [new_edge (ident r1) r2]\<rparr>,
            None)" if "grp r1 = grp r2"
  proof -
    have "groupby_grp rows = [(grp r1, rows)]"
      using assms(6) that by (intro groupby_grp_single) auto
    then show ?thesis
      using g by (simp add: get_nodes_and_edges_def)
  qed
  have pass: "for_groups (before @ (k, rows) # after) s0
          = for_groups after
              (s\<lparr>final_node_list :=
                   final_node_list s
                     @ [\<lparr>node_identifier = ident r1, node_name = sanitize n1\<rparr>,
                        \<lparr>node_identifier = ident r2, node_name = sanitize n2\<rparr>],
                 final_edge_list := final_edge_list s @ [new_edge (ident r1) r2]\<rparr>)"
    if "for_groups before s0 = (s, None)" for before k after s0
    using that g by (simp add: for_groups_append)
  show ?thesis
    using g ids whole pass by blast
qed

theorem well_formed_group_two_nodes_one_edge_witness:
  "get_nodes_and_edges
      [disease_node_1 (py ''g1'') (py ''HGNC:777'') (Some (py ''BRCA1'')),
       disease_node_2 (py ''g1'') (py ''UMLS:C009'') (Some (py ''Breast Cancer''))
         (Some (py ''CTD''))]
      (init_loader :: int loader)
    = (init_loader
        \<lparr>final_node_list :=
           [\<lparr>node_identifier = py ''HGNC:777'', node_name = py ''BRCA1''\<rparr>,
            \<lparr>node_identifier = py ''UMLS:C009'', node_name = py ''Breast Cancer''\<rparr>],
         final_edge_list :=
           [\<lparr>subject_id = py ''HGNC:777'', object_id = py ''UMLS:C009'',
             edge_relation = Some (py ''WD:P2293''),
             edge_predicate = Some (py ''biolink:gene_associated_with_condition''),
             edgeprops = \<lparr>publications = Some [], ep_affinity = PInt 0,
                          ep_affinity_parameter = PStr []\<rparr>,
             primary_knowledge_source = Some (py ''CTD''),
             aggregator_knowledge_sources = [py ''infores:pharos'']\<rparr>]\<rparr>,
       None)"
proof -
  let ?r1 = "disease_node_1 (py ''g1'') (py ''HGNC:777'') (Some (py ''BRCA1'')) :: int flat_record"
  let ?r2 = "disease_node_2 (py ''g1'') (py ''UMLS:C009'') (Some (py ''Breast Cancer''))
         (Some (py ''CTD'')) :: int flat_record"
  have h: "node_num ?r1 = 1" "name ?r1 = Some (py ''BRCA1'')" "ident ?r1 \<noteq> []"
    "node_num ?r2 \<noteq> 1" "name ?r2 = Some (py ''Breast Cancer'')"
    "[?r1, ?r2] = [?r1, ?r2] \<or> [?r1, ?r2] = [?r2, ?r1]"
    by (simp_all add: disease_node_1_def disease_node_2_def py_def)
  have k: "grp ?r1 = grp ?r2"
    by (simp add: disease_node_1_def disease_node_2_def)
  let ?s = "init_loader :: int loader"
  have "get_nodes_and_edges [?r1, ?r2] ?s
         = (?s\<lparr>final_node_list :=
                 final_node_list ?s
                   @ [\<lparr>node_identifier = ident ?r1, node_name = sanitize (py ''BRCA1'')\<rparr>,
                      \<lparr>node_identifier = ident ?r2, node_name = sanitize (py ''Breast Cancer'')\<rparr>],
               final_edge_list := final_edge_list ?s @ [new_edge (ident ?r1) ?r2]\<rparr>,
            None)"
    by (rule well_formed_group_two_nodes_one_edge [OF h, THEN conjunct2, THEN conjunct2,
          THEN conjunct2, THEN conjunct1, THEN mp, OF k])
  then show ?thesis
    by (simp add: disease_node_1_def disease_node_2_def init_loader_def new_edge_def
        sanitize_map provenance_id_def py_def)
qed

text \<open>
  C3 as stated fails for a first record without a name (a gene whose symbol is NULL):
  the guard on line 418 skips it, and the group gives no node and no edge.
\<close>

theorem nameless_subject_counterexample:
  "get_nodes_and_edges
      [disease_node_1 (py ''g1'') (py ''HGNC:777'') None,
       disease_node_2 (py ''g1'') (py ''UMLS:C009'') (Some (py ''Breast Cancer''))
         (Some (py ''CTD''))]
      (init_loader :: int loader)
    = (init_loader, None)
   \<and> node_num (disease_node_1 (py ''g1'') (py ''HGNC:777'') None :: int flat_record) = 1
   \<and> 2 \<le> node_num (disease_node_2 (py ''g1'') (py ''UMLS:C009'')
                       (Some (py ''Breast Cancer'')) (Some (py ''CTD'')) :: int flat_record)"
  by (simp add: get_nodes_and_edges_def groupby_grp_def process_group_def disease_node_1_def
      disease_node_2_def py_def)

subsection \<open>Edges refer to nodes of the output\<close>

lemma grown_from_refl [simp]: "grown_from s s"
  by (simp add: grown_from_def)

lemma grown_from_trans: "grown_from s t \<Longrightarrow> grown_from t u \<Longrightarrow> grown_from s u"
  unfolding grown_from_def
  by (metis append_eq_conv_conj append_take_drop_id take_append length_append
      le_add1 take_all_iff append.assoc)

lemma grown_from_append:
  "final_node_list s' = final_node_list s @ ns \<Longrightarrow> final_edge_list s' = final_edge_list s @ es
     \<Longrightarrow> grown_from s s'"
  by (simp add: grown_from_def)

lemma edges_closed_add_node:
  assumes "edges_closed s"
  shows "edges_closed (s\<lparr>final_node_list := final_node_list s @ [n]\<rparr>)"
  using assms by (auto simp add: edges_closed_def list_all_iff)

lemma edges_closed_add_object:
  assumes "edges_closed s" and "node_1_id \<in> set (map node_identifier (final_node_list s))"
  shows "edges_closed
           (s\<lparr>final_node_list :=
                final_node_list s @ [\<lparr>node_identifier = ident row, node_name = nm\<rparr>],
              final_edge_list := final_edge_list s @ [new_edge node_1_id row]\<rparr>)"
  using assms by (auto simp add: edges_closed_def list_all_iff new_edge_def)

lemma find_node_1_closed:
  assumes "find_node_1 rows s = (node_1_id, s')" and "edges_closed s"
  shows "edges_closed s' \<and> grown_from s s'
    \<and> (node_1_id \<noteq> [] \<longrightarrow> node_1_id \<in> set (map node_identifier (final_node_list s')))"
  using assms
proof (induction rows)
  case Nil
  then show ?case by simp
next
  case (Cons row rows)
  show ?case
  proof (cases "node_num row = 1 \<and> name row \<noteq> None")
    case True
    then obtain nm where nm: "name row = Some nm" by auto
    with True Cons.prems(1) have
      s': "s' = s\<lparr>final_node_list :=
                     final_node_list s
                       @ [\<lparr>node_identifier = ident row, node_name = sanitize nm\<rparr>]\<rparr>"
      and n: "node_1_id = ident row" by auto
    show ?thesis
      using edges_closed_add_node [OF Cons.prems(2)] s' n
      by (simp add: grown_from_def)
  next
    case False
    with Cons.prems(1) have "find_node_1 rows s = (node_1_id, s')"
      by (auto split: option.splits if_splits)
    from Cons.IH [OF this Cons.prems(2)] show ?thesis .
  qed
qed

lemma add_objects_closed:
  assumes "add_objects node_1_id rows s = (s', err)" and "edges_closed s"
    and "node_1_id \<in> set (map node_identifier (final_node_list s))"
  shows "edges_closed s' \<and> grown_from s s'"
  using assms
proof (induction rows arbitrary: s)
  case Nil
  then show ?case by simp
next
  case (Cons row rows)
  show ?case
  proof (cases "node_num row \<noteq> 1")
    case False
    with Cons.prems(1) have "add_objects node_1_id rows s = (s', err)" by simp
    from Cons.IH [OF this Cons.prems(2,3)] show ?thesis .
  next
    case True
    show ?thesis
    proof (cases "name row")
      case None
      with True Cons.prems show ?thesis by simp
    next
      case (Some nm)
      let ?t = "s\<lparr>final_node_list :=
                     final_node_list s
                       @ [\<lparr>node_identifier = ident row, node_name = sanitize nm\<rparr>],
                   final_edge_list := final_edge_list s @ [new_edge node_1_id row]\<rparr>"
      have run: "add_objects node_1_id rows ?t = (s', err)"
        using True Some Cons.prems(1) by simp
      have c: "edges_closed ?t"
        using edges_closed_add_object [OF Cons.prems(2,3)] .
      have i: "node_1_id \<in> set (map node_identifier (final_node_list ?t))"
        using Cons.prems(3) by simp
      have g: "grown_from s ?t" by (simp add: grown_from_def)
      from Cons.IH [OF run c i] g show ?thesis
        using grown_from_trans by blast
    qed
  qed
qed

lemma process_group_closed:
  assumes "process_group rows s = (s', err)" and "edges_closed s"
  shows "edges_closed s' \<and> grown_from s s'"
proof (cases "length rows = 2")
  case False
  with assms show ?thesis
    by (auto simp add: process_group_def log_call_def edges_closed_def grown_from_def)
next
  case True
  obtain node_1_id s1 where f: "find_node_1 rows s = (node_1_id, s1)"
    by (cases "find_node_1 rows s")
  note f1 = find_node_1_closed [OF f assms(2)]
  show ?thesis
  proof (cases "node_1_id = []")
    case True
    with \<open>length rows = 2\<close> f assms(1) f1 show ?thesis
      by (simp add: process_group_def)
  next
    case False
    with \<open>length rows = 2\<close> f assms(1) have "add_objects node_1_id rows s1 = (s', err)"
      by (simp add: process_group_def)
    from add_objects_closed [OF this] f1 False show ?thesis
      using grown_from_trans by blast
  qed
qed

lemma for_groups_closed:
  assumes "for_groups groups s = (s', err)" and "edges_closed s"
  shows "edges_closed s' \<and> grown_from s s'"
  using assms
proof (induction groups arbitrary: s)
  case Nil
  then show ?case by simp
next
  case (Cons g groups)
  obtain k rows where g: "g = (k, rows)" by (cases g)
  obtain s1 e1 where p: "process_group rows s = (s1, e1)"
    by (cases "process_group rows s")
  note p1 = process_group_closed [OF p Cons.prems(2)]
  show ?case
  proof (cases e1)
    case (Some e)
    with Cons.prems(1) g p p1 show ?thesis by simp
  next
    case None
    with Cons.prems(1) g p have "for_groups groups s1 = (s', err)" by simp
    from Cons.IH [OF this] p1 show ?thesis
      using grown_from_trans by blast
  qed
qed

subsection \<open>The phases of parse\_data\<close>

lemma parse_data_returns:
  assumes "parse_data rt db s = (s', Inr md)"
  shows "\<exists>s1 nl1 r1 k1 s2 nl2 r2 k2 s3 nl3 r3 k3.
           parse_gene_to_disease rt (gene_to_disease db) [] s = (s1, Inr (nl1, r1, k1))
         \<and> parse_gene_to_drug_activity rt (gene_to_drug_activity db) nl1 s1
             = (s2, Inr (nl2, r2, k2))
         \<and> parse_gene_to_cmpd_activity rt (gene_to_cmpd_activity db) nl2 s2
             = (s3, Inr (nl3, r3, k3))
         \<and> create_nodes_and_edges nl3 s3 = (s', None)
         \<and> md = load_metadata (r1 + r2 + r3) (k1 + k2 + k3)"
  using assms
  by (auto simp add: parse_data_def split: prod.splits sum.splits option.splits)

lemma parse_data_phases:
  assumes "parse_data rt db s = (s', r)"
  shows "same_output s s'
         \<or> (\<exists>s3 nl err. same_output s s3 \<and> create_nodes_and_edges nl s3 = (s', err))"
proof -
  have refl: "same_output s s" by (simp add: same_output_def)
  obtain s1 r1 where p1: "parse_gene_to_disease rt (gene_to_disease db) [] s = (s1, r1)"
    by (cases "parse_gene_to_disease rt (gene_to_disease db) [] s")
  note o1 = parse_gene_to_disease_output [OF p1 refl]
  show ?thesis
  proof (cases r1)
    case (Inl e)
    with p1 assms o1 show ?thesis by (simp add: parse_data_def)
  next
    case a1: (Inr a1)
    obtain nl1 c1 k1 where t1: "a1 = (nl1, c1, k1)" by (cases a1)
    obtain s2 r2 where
      p2: "parse_gene_to_drug_activity rt (gene_to_drug_activity db) nl1 s1 = (s2, r2)"
      by (cases "parse_gene_to_drug_activity rt (gene_to_drug_activity db) nl1 s1")
    note o2 = parse_gene_to_drug_activity_output [OF p2 o1]
    show ?thesis
    proof (cases r2)
      case (Inl e)
      with p1 a1 t1 p2 assms o2 show ?thesis by (simp add: parse_data_def)
    next
      case a2: (Inr a2)
      obtain nl2 c2 k2 where t2: "a2 = (nl2, c2, k2)" by (cases a2)
      obtain s3 r3 where
        p3: "parse_gene_to_cmpd_activity rt (gene_to_cmpd_activity db) nl2 s2 = (s3, r3)"
        by (cases "parse_gene_to_cmpd_activity rt (gene_to_cmpd_activity db) nl2 s2")
      note o3 = parse_gene_to_cmpd_activity_output [OF p3 o2]
      show ?thesis
      proof (cases r3)
        case (Inl e)
        with p1 a1 t1 p2 a2 t2 p3 assms o3 show ?thesis by (simp add: parse_data_def)
      next
        case a3: (Inr a3)
        obtain nl3 c3 k3 where t3: "a3 = (nl3, c3, k3)" by (cases a3)
        obtain s4 e4 where c: "create_nodes_and_edges nl3 s3 = (s4, e4)"
          by (cases "create_nodes_and_edges nl3 s3")
        with p1 a1 t1 p2 a2 t2 p3 a3 t3 assms have "s' = s4"
          by (auto simp add: parse_data_def split: option.splits)
        with c o3 show ?thesis by blast
      qed
    qed
  qed
qed

lemma edges_closed_cong:
  "final_node_list s' = final_node_list s \<Longrightarrow> final_edge_list s' = final_edge_list s
     \<Longrightarrow> edges_closed s' = edges_closed s"
  by (simp add: edges_closed_def)

lemma create_nodes_and_edges_closed:
  assumes "create_nodes_and_edges nl s = (s', err)" and "edges_closed s"
  shows "edges_closed s'"
proof (cases "length nl > 0")
  case False
  with assms show ?thesis
    by (auto simp add: create_nodes_and_edges_def log_call_def edges_closed_def)
next
  case True
  let ?t = "log_call DEBUG Creating_nodes_and_edges s"
  obtain s1 e1 where g: "get_nodes_and_edges nl ?t = (s1, e1)"
    by (cases "get_nodes_and_edges nl ?t")
  have "edges_closed ?t"
    using assms(2) by (simp add: log_call_def edges_closed_def)
  with g have c1: "edges_closed s1"
    using for_groups_closed by (auto simp add: get_nodes_and_edges_def)
  show ?thesis
  proof (cases e1)
    case None
    with True g assms(1) have "s' = log_call DEBUG
                (Nodes_and_edges_found (length (final_node_list s1))
                   (length (final_edge_list s1))) s1"
      by (simp add: create_nodes_and_edges_def)
    with c1 show ?thesis by (simp add: log_call_def edges_closed_def)
  next
    case (Some e)
    with True g assms(1) c1 show ?thesis by (simp add: create_nodes_and_edges_def)
  qed
qed

text \<open>
  C4. A materialization pass that starts with every edge referring to nodes of the node
  list (as with the empty lists of a new loader) ends so, whether it returns or raises,
  and only appends to the two lists. The same holds after every group of the pass, and
  what is in the lists then stays where it is: the nodes of an edge were appended no
  later than the edge. A whole \<open>parse_data\<close> keeps the property too.
\<close>

theorem edges_reference_present_nodes:
  assumes "edges_closed s"
  shows "edges_closed (fst (get_nodes_and_edges df s))
    \<and> grown_from s (fst (get_nodes_and_edges df s))
    \<and> (\<forall>gs1 gs2. groupby_grp df = gs1 @ gs2 \<longrightarrow>
          edges_closed (fst (for_groups gs1 s))
          \<and> grown_from s (fst (for_groups gs1 s))
          \<and> grown_from (fst (for_groups gs1 s)) (fst (get_nodes_and_edges df s)))
    \<and> edges_closed (fst (parse_data rt db s))"
proof -
  have whole: "edges_closed (fst (for_groups gs s)) \<and> grown_from s (fst (for_groups gs s))"
    for gs
    using for_groups_closed [OF _ assms, of gs] by (cases "for_groups gs s") simp
  have part: "grown_from (fst (for_groups gs1 s)) (fst (get_nodes_and_edges df s))"
    if "groupby_grp df = gs1 @ gs2" for gs1 gs2
  proof (cases "for_groups gs1 s")
    case (Pair s1 e1)
    have c1: "edges_closed s1" using whole [of gs1] Pair by simp
    show ?thesis
    proof (cases e1)
      case (Some e)
      with Pair that show ?thesis
        by (simp add: get_nodes_and_edges_def for_groups_append)
    next
      case None
      with Pair that have "get_nodes_and_edges df s = for_groups gs2 s1"
        by (simp add: get_nodes_and_edges_def for_groups_append)
      then show ?thesis
        using for_groups_closed [OF _ c1, of gs2] Pair by (cases "for_groups gs2 s1") simp
    qed
  qed
  have run: "edges_closed (fst (parse_data rt db s))"
  proof (cases "parse_data rt db s")
    case (Pair s' r)
    from parse_data_phases [OF Pair] show ?thesis
    proof
      assume "same_output s s'"
      with assms Pair show ?thesis
        by (simp add: same_output_def edges_closed_def)
    next
      assume "\<exists>s3 nl err. same_output s s3 \<and> create_nodes_and_edges nl s3 = (s', err)"
      then obtain s3 nl err where o: "same_output s s3"
        and c: "create_nodes_and_edges nl s3 = (s', err)" by blast
      from o assms have "edges_closed s3"
        by (simp add: same_output_def edges_closed_def)
      from create_nodes_and_edges_closed [OF c this] Pair show ?thesis by simp
    qed
  qed
  show ?thesis
    using whole [of "groupby_grp df"] whole part run
    by (simp add: get_nodes_and_edges_def)
qed

theorem edges_reference_present_nodes_witness:
  "edges_closed (init_loader :: int loader)
   \<and> edges_closed (fst (get_nodes_and_edges
        [disease_node_1 (py ''g1'') (py ''HGNC:777'') (Some (py ''BRCA1'')),
         disease_node_2 (py ''g1'') (py ''UMLS:C009'') (Some (py ''Breast Cancer''))
           (Some (py ''CTD''))]
        (init_loader :: int loader)))
   \<and> map subject_id (final_edge_list (fst (get_nodes_and_edges
        [disease_node_1 (py ''g1'') (py ''HGNC:777'') (Some (py ''BRCA1'')),
         disease_node_2 (py ''g1'') (py ''UMLS:C009'') (Some (py ''Breast Cancer''))
           (Some (py ''CTD''))]
        (init_loader :: int loader)))) = [py ''HGNC:777'']
   \<and> map node_identifier (final_node_list (fst (get_nodes_and_edges
        [disease_node_1 (py ''g1'') (py ''HGNC:777'') (Some (py ''BRCA1'')),
         disease_node_2 (py ''g1'') (py ''UMLS:C009'') (Some (py ''Breast Cancer''))
           (Some (py ''CTD''))]
        (init_loader :: int loader)))) = [py ''HGNC:777'', py ''UMLS:C009'']"
proof -
  let ?df = "[disease_node_1 (py ''g1'') (py ''HGNC:777'') (Some (py ''BRCA1'')),
         disease_node_2 (py ''g1'') (py ''UMLS:C009'') (Some (py ''Breast Cancer''))
           (Some (py ''CTD''))] :: int flat_record list"
  have i: "edges_closed (init_loader :: int loader)"
    by (simp add: edges_closed_def init_loader_def)
  have c: "edges_closed (fst (get_nodes_and_edges ?df init_loader))"
    by (rule edges_reference_present_nodes [OF i, THEN conjunct1])
  have "map subject_id (final_edge_list (fst (get_nodes_and_edges ?df init_loader)))
          = [py ''HGNC:777'']"
    and "map node_identifier (final_node_list (fst (get_nodes_and_edges ?df init_loader)))
          = [py ''HGNC:777'', py ''UMLS:C009'']"
    by (simp_all add: get_nodes_and_edges_def groupby_grp_def process_group_def
        disease_node_1_def disease_node_2_def new_edge_def py_def init_loader_def)
  with i c show ?thesis by simp
qed

subsection \<open>Counters and metadata\<close>

lemma disease_counters:
  assumes "for_each (disease_item rt) rows (nl, rc, sk) s = (s', Inr (nl', rc', sk'))"
  shows "rc' = rc + length rows \<and> sk' = sk + length (filter (\<lambda>item. d_did item = None) rows)"
  using assms
proof (induction rows arbitrary: nl rc sk s)
  case Nil
  then show ?case by simp
next
  case (Cons item rows)
  obtain s1 r1 where b: "disease_item rt item (nl, rc, sk) s = (s1, r1)"
    by (cases "disease_item rt item (nl, rc, sk) s")
  with Cons.prems obtain nl1 rc1 sk1 where r1: "r1 = Inr (nl1, rc1, sk1)"
    and rest: "for_each (disease_item rt) rows (nl1, rc1, sk1) s1 = (s', Inr (nl', rc', sk'))"
    by (cases r1) auto
  have "rc1 = rc + 1 \<and> sk1 = sk + (if d_did item = None then 1 else 0)"
    using b r1
    by (auto simp add: disease_item_def split: option.splits sum.splits if_splits)
  with Cons.IH [OF rest] show ?case by simp
qed

lemma drug_counters:
  assumes "for_each (drug_item rt) rows (nl, rc, sk) s = (s', Inr (nl', rc', sk'))"
  shows "rc' = rc + length rows \<and> sk' = sk"
  using assms
proof (induction rows arbitrary: nl rc sk s)
  case Nil
  then show ?case by simp
next
  case (Cons item rows)
  obtain s1 r1 where b: "drug_item rt item (nl, rc, sk) s = (s1, r1)"
    by (cases "drug_item rt item (nl, rc, sk) s")
  with Cons.prems obtain nl1 rc1 sk1 where r1: "r1 = Inr (nl1, rc1, sk1)"
    and rest: "for_each (drug_item rt) rows (nl1, rc1, sk1) s1 = (s', Inr (nl', rc', sk'))"
    by (cases r1) auto
  have "rc1 = rc + 1 \<and> sk1 = sk"
    using b r1
    by (auto simp add: drug_item_def split: option.splits sum.splits prod.splits)
  with Cons.IH [OF rest] show ?case by simp
qed

lemma cmpd_counters:
  assumes "for_each (cmpd_item rt) rows (nl, rc, sk) s = (s', Inr (nl', rc', sk'))"
  shows "rc' = rc + length rows \<and> sk' = sk"
  using assms
proof (induction rows arbitrary: nl rc sk s)
  case Nil
  then show ?case by simp
next
  case (Cons item rows)
  obtain s1 r1 where b: "cmpd_item rt item (nl, rc, sk) s = (s1, r1)"
    by (cases "cmpd_item rt item (nl, rc, sk) s")
  with Cons.prems obtain nl1 rc1 sk1 where r1: "r1 = Inr (nl1, rc1, sk1)"
    and rest: "for_each (cmpd_item rt) rows (nl1, rc1, sk1) s1 = (s', Inr (nl', rc', sk'))"
    by (cases r1) auto
  have "rc1 = rc + 1 \<and> sk1 = sk"
    using b r1
    by (auto simp add: cmpd_item_def split: option.splits sum.splits prod.splits)
  with Cons.IH [OF rest] show ?case by simp
qed

lemma parse_data_metadata:
  assumes "parse_data rt db s = (s', Inr md)"
  shows "md = load_metadata
                (length (gene_to_disease db) + length (gene_to_drug_activity db)
                   + length (gene_to_cmpd_activity db))
                (length (filter (\<lambda>item. d_did item = None) (gene_to_disease db)))"
proof -
  from parse_data_returns [OF assms] obtain s1 nl1 r1 k1 s2 nl2 r2 k2 s3 nl3 r3 k3 where
    p1: "parse_gene_to_disease rt (gene_to_disease db) [] s = (s1, Inr (nl1, r1, k1))"
    and p2: "parse_gene_to_drug_activity rt (gene_to_drug_activity db) nl1 s1
             = (s2, Inr (nl2, r2, k2))"
    and p3: "parse_gene_to_cmpd_activity rt (gene_to_cmpd_activity db) nl2 s2
             = (s3, Inr (nl3, r3, k3))"
    and md: "md = load_metadata (r1 + r2 + r3) (k1 + k2 + k3)"
    by blast
  from disease_counters [OF p1 [unfolded parse_gene_to_disease_def]]
    drug_counters [OF p2 [unfolded parse_gene_to_drug_activity_def]]
    cmpd_counters [OF p3 [unfolded parse_gene_to_cmpd_activity_def]] md
  show ?thesis by simp
qed

text \<open>
  C2, as amended. For every group whose size is not 2, materialization appends no node
  and no edge and makes one call to the logger, at level DEBUG, that reports the size;
  the loader has no counter of such groups, and its two counters stay as they are. The
  run metadata that \<open>parse_data\<close> returns holds two counts only, both known before the
  groups are formed: the number of source rows and the number of gene-to-disease rows
  skipped for want of a disease identifier.
\<close>

theorem malformed_group_skipped:
  assumes "length rows \<noteq> 2"
  shows "process_group rows s = (log_call DEBUG (Node_group_mismatch (length rows)) s, None)
    \<and> same_output s (fst (process_group rows s))
    \<and> logged (fst (process_group rows s))
        = logged s @ [(DEBUG, Node_group_mismatch (length rows))]
    \<and> (\<forall>before k after s0.
          for_groups before s0 = (s, None) \<longrightarrow>
          for_groups (before @ (k, rows) # after) s0
          = for_groups after (log_call DEBUG (Node_group_mismatch (length rows)) s))
    \<and> (\<forall>s' md. parse_data rt db s = (s', Inr md) \<longrightarrow>
          md = [(''num_source_lines'',
                 length (gene_to_disease db) + length (gene_to_drug_activity db)
                   + length (gene_to_cmpd_activity db)),
                (''unusable_source_lines'',
                 length (filter (\<lambda>item. d_did item = None) (gene_to_disease db)))])"
proof -
  have g: "process_group rows s = (log_call DEBUG (Node_group_mismatch (length rows)) s, None)"
    using assms by (simp add: process_group_def)
  have pass: "for_groups (before @ (k, rows) # after) s0
          = for_groups after (log_call DEBUG (Node_group_mismatch (length rows)) s)"
    if "for_groups before s0 = (s, None)" for before k after s0
    using that g by (simp add: for_groups_append)
  have md: "md = [(''num_source_lines'',
                 length (gene_to_disease db) + length (gene_to_drug_activity db)
                   + length (gene_to_cmpd_activity db)),
                (''unusable_source_lines'',
                 length (filter (\<lambda>item. d_did item = None) (gene_to_disease db)))]"
    if "parse_data rt db s = (s', Inr md)" for s' md
    using parse_data_metadata [OF that] by (simp add: load_metadata_def)
  show ?thesis
    using g pass md by (simp add: same_output_def log_call_def)
qed

theorem malformed_group_skipped_witness:
  "length [disease_node_2 (py ''g1'') (py ''UMLS:C009'') (Some (py ''Breast Cancer''))
             (Some (py ''CTD'')) :: int flat_record] \<noteq> 2
   \<and> process_group
        [disease_node_2 (py ''g1'') (py ''UMLS:C009'') (Some (py ''Breast Cancer''))
           (Some (py ''CTD''))]
        (init_loader :: int loader)
      = (init_loader\<lparr>logged := [(DEBUG, Node_group_mismatch 1)]\<rparr>, None)"
proof -
  let ?rows = "[disease_node_2 (py ''g1'') (py ''UMLS:C009'') (Some (py ''Breast Cancer''))
             (Some (py ''CTD''))] :: int flat_record list"
  have l: "length ?rows \<noteq> 2" by simp
  have "process_group ?rows (init_loader :: int loader)
        = (log_call DEBUG (Node_group_mismatch (length ?rows)) init_loader, None)"
    by (rule malformed_group_skipped [OF l, THEN conjunct1])
  then show ?thesis
    by (simp add: log_call_def init_loader_def)
qed

text \<open>
  C2 as stated fails: after a pass over a group of one row, every field of the loader
  that counts anything is what it was, and the only trace is the log entry.
\<close>

theorem no_malformed_group_counter_counterexample:
  "get_nodes_and_edges
      [disease_node_2 (py ''g1'') (py ''UMLS:C009'') (Some (py ''Breast Cancer''))
         (Some (py ''CTD''))]
      (init_loader :: int loader)
    = (\<lparr>total_nodes = 0, total_edges = 0, final_node_list = [], final_edge_list = [],
        logged = [(DEBUG, Node_group_mismatch 1)], draws = 0\<rparr>,
       None)
   \<and> map fst (load_metadata 1 0) = [''num_source_lines'', ''unusable_source_lines'']"
  by (simp add: get_nodes_and_edges_def groupby_grp_def process_group_def log_call_def
      init_loader_def load_metadata_def disease_node_2_def)

subsection \<open>The pass only appends\<close>

lemma appended_init [simp]: "appended s init_loader = s"
  by (simp add: appended_def init_loader_def)

lemma appended_fields [simp]:
  "final_node_list (appended s d) = final_node_list s @ final_node_list d"
  "final_edge_list (appended s d) = final_edge_list s @ final_edge_list d"
  "logged (appended s d) = logged s @ logged d"
  by (simp_all add: appended_def)

lemma log_call_appended: "log_call lv m (appended s d) = appended s (log_call lv m d)"
  by (simp add: log_call_def appended_def)

lemma find_node_1_appended:
  "find_node_1 rows (appended s d)
   = (fst (find_node_1 rows d), appended s (snd (find_node_1 rows d)))"
  by (induction rows) (auto simp add: appended_def split: option.splits)

lemma add_objects_appended:
  "add_objects n rows (appended s d)
   = (appended s (fst (add_objects n rows d)), snd (add_objects n rows d))"
proof (induction rows arbitrary: d)
  case Nil
  show ?case by simp
next
  case (Cons row rows)
  show ?case
  proof (cases "node_num row \<noteq> 1")
    case False
    with Cons show ?thesis by simp
  next
    case True
    show ?thesis
    proof (cases "name row")
      case None
      with True show ?thesis by simp
    next
      case (Some nm)
      let ?d = "d\<lparr>final_node_list :=
                    final_node_list d
                      @ [\<lparr>node_identifier = ident row, node_name = sanitize nm\<rparr>],
                  final_edge_list := final_edge_list d @ [new_edge n row]\<rparr>"
      have "(appended s d)\<lparr>final_node_list :=
                    final_node_list (appended s d)
                      @ [\<lparr>node_identifier = ident row, node_name = sanitize nm\<rparr>],
                  final_edge_list := final_edge_list (appended s d) @ [new_edge n row]\<rparr>
            = appended s ?d"
        by (simp add: appended_def)
      with True Some Cons [of ?d] show ?thesis by simp
    qed
  qed
qed

lemma process_group_appended:
  "process_group rows (appended s d)
   = (appended s (fst (process_group rows d)), snd (process_group rows d))"
  by (simp add: process_group_def find_node_1_appended add_objects_appended
      log_call_appended split: prod.splits)

lemma process_group_frame:
  "process_group rows s
   = (s\<lparr>final_node_list := final_node_list s @ group_nodes rows,
        final_edge_list := final_edge_list s @ group_edges rows,
        logged := logged s @ group_logged rows\<rparr>,
      group_error rows)"
proof -
  have "process_group rows s
        = (appended s (fst (process_group rows init_loader)),
           snd (process_group rows init_loader))"
    using process_group_appended [of rows s init_loader] by simp
  then show ?thesis
    by (simp add: group_nodes_def group_edges_def group_logged_def group_error_def
        appended_def)
qed

lemma add_objects_error:
  "snd (add_objects n rows s) = Some e \<Longrightarrow> e = TypeError"
  by (induction rows arbitrary: s) (auto split: option.splits if_splits)

lemma group_error_TypeError:
  assumes "group_error rows = Some e"
  shows "e = TypeError"
proof -
  have "snd (process_group rows s) = Some e \<Longrightarrow> e = TypeError" for s :: "'a loader"
    using add_objects_error
    by (fastforce simp add: process_group_def split: if_splits prod.splits)
  with assms show ?thesis
    unfolding group_error_def by blast
qed

lemma for_groups_no_error:
  assumes "\<forall>g \<in> set gs. group_error (snd g) = None"
  shows "snd (for_groups gs s) = None
    \<and> final_node_list (fst (for_groups gs s))
        = final_node_list s @ concat (map (\<lambda>g. group_nodes (snd g)) gs)
    \<and> final_edge_list (fst (for_groups gs s))
        = final_edge_list s @ concat (map (\<lambda>g. group_edges (snd g)) gs)
    \<and> logged (fst (for_groups gs s))
        = logged s @ concat (map (\<lambda>g. group_logged (snd g)) gs)"
  using assms
proof (induction gs arbitrary: s)
  case Nil
  show ?case by simp
next
  case (Cons g gs)
  obtain k rows where g: "g = (k, rows)" by (cases g)
  let ?t = "s\<lparr>final_node_list := final_node_list s @ group_nodes rows,
        final_edge_list := final_edge_list s @ group_edges rows,
        logged := logged s @ group_logged rows\<rparr>"
  have "group_error rows = None" using Cons.prems g by simp
  then have "for_groups (g # gs) s = for_groups gs ?t"
    using g by (simp add: process_group_frame)
  moreover have "\<forall>g \<in> set gs. group_error (snd g) = None" using Cons.prems by simp
  ultimately show ?case
    using Cons.IH [of ?t] g by simp
qed

lemma for_groups_error:
  assumes "\<exists>g \<in> set gs. group_error (snd g) \<noteq> None"
  shows "snd (for_groups gs s) = Some TypeError"
  using assms
proof (induction gs arbitrary: s)
  case Nil
  then show ?case by simp
next
  case (Cons g gs)
  obtain k rows where g: "g = (k, rows)" by (cases g)
  show ?case
  proof (cases "group_error rows")
    case (Some e)
    with group_error_TypeError [OF Some] g show ?thesis
      by (simp add: process_group_frame)
  next
    case None
    with Cons.prems g have "\<exists>g \<in> set gs. group_error (snd g) \<noteq> None" by auto
    from Cons.IH [OF this] None g show ?thesis
      by (simp add: process_group_frame)
  qed
qed

subsection \<open>The pass does not read the keys\<close>

lemma ungrouped_fields [simp]:
  "node_num (ungrouped row) = node_num row" "name (ungrouped row) = name row"
  "ident (ungrouped row) = ident row" "new_edge n (ungrouped row) = new_edge n row"
  by (simp_all add: ungrouped_def new_edge_def)

lemma find_node_1_ungrouped: "find_node_1 (map ungrouped rows) s = find_node_1 rows s"
  by (induction rows) (simp_all split: option.splits)

lemma add_objects_ungrouped: "add_objects n (map ungrouped rows) s = add_objects n rows s"
  by (induction rows arbitrary: s) (simp_all split: option.splits)

lemma process_group_ungrouped: "process_group (map ungrouped rows) s = process_group rows s"
  by (simp add: process_group_def find_node_1_ungrouped add_objects_ungrouped
      split: prod.splits)

lemma group_ungrouped [simp]:
  "group_nodes (map ungrouped rows) = group_nodes rows"
  "group_edges (map ungrouped rows) = group_edges rows"
  "group_logged (map ungrouped rows) = group_logged rows"
  "group_error (map ungrouped rows) = group_error rows"
  by (simp_all add: group_nodes_def group_edges_def group_logged_def group_error_def
      process_group_ungrouped)

lemma mset_concat_map:
  "mset (concat (map f xs)) = sum_mset (image_mset (\<lambda>x. mset (f x)) (mset xs))"
  by (induction xs) simp_all

lemma get_nodes_and_edges_returns:
  assumes "\<forall>rows \<in># groups_of df. group_error rows = None"
  shows "snd (get_nodes_and_edges df s) = None"
    and "mset (final_node_list (fst (get_nodes_and_edges df s)))
          = mset (final_node_list s) + (\<Sum>rows \<in># groups_of df. mset (group_nodes rows))"
    and "mset (final_edge_list (fst (get_nodes_and_edges df s)))
          = mset (final_edge_list s) + (\<Sum>rows \<in># groups_of df. mset (group_edges rows))"
    and "mset (logged (fst (get_nodes_and_edges df s)))
          = mset (logged s) + (\<Sum>rows \<in># groups_of df. mset (group_logged rows))"
proof -
  have "\<forall>g \<in> set (groupby_grp df). group_error (snd g) = None"
    using assms by (simp add: groups_of_def)
  note r = for_groups_no_error [OF this, of s]
  show "snd (get_nodes_and_edges df s) = None"
    using r by (simp add: get_nodes_and_edges_def)
  show "mset (final_node_list (fst (get_nodes_and_edges df s)))
          = mset (final_node_list s) + (\<Sum>rows \<in># groups_of df. mset (group_nodes rows))"
    using r by (simp add: get_nodes_and_edges_def groups_of_def mset_concat_map
        image_mset.compositionality comp_def)
  show "mset (final_edge_list (fst (get_nodes_and_edges df s)))
          = mset (final_edge_list s) + (\<Sum>rows \<in># groups_of df. mset (group_edges rows))"
    using r by (simp add: get_nodes_and_edges_def groups_of_def mset_concat_map
        image_mset.compositionality comp_def)
  show "mset (logged (fst (get_nodes_and_edges df s)))
          = mset (logged s) + (\<Sum>rows \<in># groups_of df. mset (group_logged rows))"
    using r by (simp add: get_nodes_and_edges_def groups_of_def mset_concat_map
        image_mset.compositionality comp_def)
qed

lemma get_nodes_and_edges_raises:
  assumes "\<not> (\<forall>rows \<in># groups_of df. group_error rows = None)"
  shows "snd (get_nodes_and_edges df s) = Some TypeError"
proof -
  have "\<exists>g \<in> set (groupby_grp df). group_error (snd g) \<noteq> None"
    using assms by (auto simp add: groups_of_def)
  from for_groups_error [OF this, of s] show ?thesis
    by (simp add: get_nodes_and_edges_def)
qed

subsection \<open>Keys matter through the grouping only\<close>

lemma groups_of_keys:
  "groups_of df
   = image_mset (\<lambda>k. map ungrouped (filter (\<lambda>row. grp row = k) df)) (mset_set (grp ` set df))"
proof -
  have "mset (sort (remdups (map grp df))) = mset_set (grp ` set df)"
    using mset_set_set [of "remdups (map grp df)"] by simp
  then show ?thesis
    by (simp add: groups_of_def groupby_grp_def image_mset.compositionality comp_def)
qed

lemma ungrouped_rekey [simp]: "ungrouped (rekey f row) = ungrouped row"
  by (simp add: ungrouped_def rekey_def)

lemma grp_rekey [simp]: "grp (rekey f row) = f (grp row)"
  by (simp add: rekey_def)

lemma groups_of_rekey:
  assumes "inj_on f (grp ` set df)"
  shows "groups_of (map (rekey f) df) = groups_of df"
proof -
  let ?K = "grp ` set df"
  have keys: "grp ` set (map (rekey f) df) = f ` ?K"
    by (auto simp add: image_iff)
  have m: "mset_set (f ` ?K) = image_mset f (mset_set ?K)"
    using image_mset_mset_set [OF assms] by simp
  have g: "map ungrouped (filter (\<lambda>row. grp row = f k) (map (rekey f) df))
           = map ungrouped (filter (\<lambda>row. grp row = k) df)" if "k \<in> ?K" for k
  proof -
    have "filter (\<lambda>row. f (grp row) = f k) df = filter (\<lambda>row. grp row = k) df"
      using that assms by (intro filter_cong) (auto dest: inj_onD)
    then show ?thesis
      by (simp add: filter_map comp_def)
  qed
  have "groups_of (map (rekey f) df)
        = image_mset (\<lambda>k. map ungrouped (filter (\<lambda>row. grp row = f k) (map (rekey f) df)))
            (mset_set ?K)"
    unfolding groups_of_keys keys m
    by (simp add: image_mset.compositionality comp_def)
  also have "\<dots> = image_mset (\<lambda>k. map ungrouped (filter (\<lambda>row. grp row = k) df))
            (mset_set ?K)"
    by (intro image_mset_cong) (simp add: g)
  finally show ?thesis
    by (simp add: groups_of_keys)
qed

lemma same_grouping_rekey:
  assumes "same_grouping df1 df2"
  shows "\<exists>f. inj_on f (grp ` set df1) \<and> df2 = map (rekey f) df1"
proof -
  let ?ks = "zip (map grp df1) (map grp df2)"
  have eq: "map ungrouped df1 = map ungrouped df2"
    using assms by (simp add: same_grouping_def)
  then have "length (map ungrouped df1) = length (map ungrouped df2)" by simp
  then have len: "length df1 = length df2" by simp
  have "\<forall>(a, b) \<in> set ?ks. \<forall>(c, d) \<in> set ?ks. (a = c) = (b = d)"
    using assms by (simp add: same_grouping_def list_all_iff)
  then have H: "(a = c) = (b = d)" if "(a, b) \<in> set ?ks" "(c, d) \<in> set ?ks" for a b c d
    using that by blast
  define f where "f a = (SOME b. (a, b) \<in> set ?ks)" for a
  have f: "f a = b" if "(a, b) \<in> set ?ks" for a b
  proof -
    have "(a, f a) \<in> set ?ks"
      unfolding f_def using that by (rule someI)
    with H [OF that this] show ?thesis by simp
  qed
  have pair: "(grp (df1 ! i), grp (df2 ! i)) \<in> set ?ks" if "i < length df1" for i
    using that len by (auto simp add: set_zip intro!: exI [of _ i])
  have inj: "inj_on f (grp ` set df1)"
  proof (rule inj_onI)
    fix a c
    assume "a \<in> grp ` set df1" "c \<in> grp ` set df1" "f a = f c"
    then obtain i j where i: "i < length df1" "a = grp (df1 ! i)"
      and j: "j < length df1" "c = grp (df1 ! j)"
      by (auto simp add: in_set_conv_nth)
    have pa: "(a, grp (df2 ! i)) \<in> set ?ks" and pc: "(c, grp (df2 ! j)) \<in> set ?ks"
      using pair [OF i(1)] pair [OF j(1)] i(2) j(2) by simp_all
    have "grp (df2 ! i) = grp (df2 ! j)"
      using f [OF pa] f [OF pc] \<open>f a = f c\<close> by simp
    with H [OF pa pc] show "a = c" by simp
  qed
  have "df2 ! i = rekey f (df1 ! i)" if "i < length df1" for i
  proof -
    have "map ungrouped df1 ! i = map ungrouped df2 ! i"
      using eq by simp
    then have u: "ungrouped (df1 ! i) = ungrouped (df2 ! i)"
      using that len by simp
    have "f (grp (df1 ! i)) = grp (df2 ! i)"
      using f [OF pair [OF that]] .
    with u show ?thesis
      by (cases "df1 ! i"; cases "df2 ! i") (simp add: ungrouped_def rekey_def)
  qed
  then have "df2 = map (rekey f) df1"
    using len by (intro nth_equalityI) simp_all
  with inj show ?thesis by blast
qed

lemma same_grouping_groups_of:
  assumes "same_grouping df1 df2"
  shows "groups_of df2 = groups_of df1"
  using same_grouping_rekey [OF assms] groups_of_rekey by blast

subsection \<open>MD5 on concrete messages\<close>

text \<open>
  The first two digests are those of the test suite of RFC 1321 for the empty message and
  for \<open>abc\<close>; the other two are group keys of one gene and one disease under two draws.
  Each is computed in steps: the padded words, the 64 steps of the block, the digits.
\<close>

lemma replicate_numeral: "replicate (numeral k) x = x # replicate (numeral k - 1) x"
  by (simp add: numeral_eq_Suc)

lemma md5_hex_empty:
  "md5_hex
     []
   = Inr
     [100, 52, 49, 100, 56, 99, 100, 57, 56, 102, 48, 48, 98, 50, 48, 52, 101, 57, 56,
      48, 48, 57, 57, 56, 101, 99, 102, 56, 52, 50, 55, 101]"
proof -
  let ?bs = "[] :: nat list"
  have w: "md5_words ?bs =
    [[128, 0, 0, 0, 0, 0, 0, 0, 0, 0, 0, 0, 0, 0, 0, 0]]"
    by (simp add: md5_words_def md5_pad_def le_bytes_def replicate_numeral upt_rec)
  have b: "md5_block (0x67452301, 0xefcdab89, 0x98badcfe, 0x10325476)
      [128, 0, 0, 0, 0, 0, 0, 0, 0, 0, 0, 0, 0, 0, 0, 0]
    = (3649838548, 78774415, 2550759657, 2118318316)"
    by code_simp
  have s: "md5_state ?bs = (3649838548, 78774415, 2550759657, 2118318316)"
    by (simp add: md5_state_def w b)
  show ?thesis
    by (simp add: md5_hex_def utf8_char_def md5_hexdigest_def s le_bytes_def hex_byte_def
        hex_digit_def upt_rec)
qed

lemma md5_hex_abc:
  "md5_hex
     [97, 98, 99]
   = Inr
     [57, 48, 48, 49, 53, 48, 57, 56, 51, 99, 100, 50, 52, 102, 98, 48, 100, 54, 57, 54,
      51, 102, 55, 100, 50, 56, 101, 49, 55, 102, 55, 50]"
proof -
  let ?bs = "[97, 98, 99] :: nat list"
  have w: "md5_words ?bs =
    [[2153996897, 0, 0, 0, 0, 0, 0, 0, 0, 0, 0, 0, 0, 0, 24, 0]]"
    by (simp add: md5_words_def md5_pad_def le_bytes_def replicate_numeral upt_rec)
  have b: "md5_block (0x67452301, 0xefcdab89, 0x98badcfe, 0x10325476)
      [2153996897, 0, 0, 0, 0, 0, 0, 0, 0, 0, 0, 0, 0, 0, 24, 0]
    = (2555380112, 2958021180, 2101319382, 1920983336)"
    by code_simp
  have s: "md5_state ?bs = (2555380112, 2958021180, 2101319382, 1920983336)"
    by (simp add: md5_state_def w b)
  show ?thesis
    by (simp add: md5_hex_def utf8_char_def md5_hexdigest_def s le_bytes_def hex_byte_def
        hex_digit_def upt_rec)
qed

lemma md5_hex_key_half:
  "md5_hex
     [72, 71, 78, 67, 58, 49, 87, 68, 58, 80, 50, 50, 57, 51, 85, 77, 76, 83, 58, 67,
      49, 48, 46, 53]
   = Inr
     [51, 54, 53, 55, 55, 57, 54, 57, 100, 51, 52, 99, 102, 52, 52, 102, 54, 100, 98,
      101, 56, 102, 98, 49, 98, 55, 57, 100, 53, 56, 101, 97]"
proof -
  let ?bs = "[72, 71, 78, 67, 58, 49, 87, 68, 58, 80, 50, 50, 57, 51, 85, 77, 76, 83, 58,
             67, 49, 48, 46, 53] :: nat list"
  have w: "md5_words ?bs =
    [[1129203528, 1146564922, 842158138, 1297429305, 1127895884, 892219441, 128, 0, 0,
      0, 0, 0, 0, 0, 192, 0]]"
    by (simp add: md5_words_def md5_pad_def le_bytes_def replicate_numeral upt_rec)
  have b: "md5_block (0x67452301, 0xefcdab89, 0x98badcfe, 0x10325476)
      [1129203528, 1146564922, 842158138, 1297429305, 1127895884, 892219441, 128, 0, 0,
       0, 0, 0, 0, 0, 192, 0]
    = (1769559862, 1341410515, 2978987629, 3931676087)"
    by code_simp
  have s: "md5_state ?bs = (1769559862, 1341410515, 2978987629, 3931676087)"
    by (simp add: md5_state_def w b)
  show ?thesis
    by (simp add: md5_hex_def utf8_char_def md5_hexdigest_def s le_bytes_def hex_byte_def
        hex_digit_def upt_rec)
qed

lemma md5_hex_key_quarter:
  "md5_hex
     [72, 71, 78, 67, 58, 49, 87, 68, 58, 80, 50, 50, 57, 51, 85, 77, 76, 83, 58, 67,
      49, 48, 46, 50, 53]
   = Inr
     [55, 101, 48, 99, 57, 101, 54, 49, 97, 101, 98, 55, 50, 100, 54, 101, 56, 53, 49,
      55, 99, 102, 56, 99, 53, 54, 51, 98, 101, 97, 100, 55]"
proof -
  let ?bs = "[72, 71, 78, 67, 58, 49, 87, 68, 58, 80, 50, 50, 57, 51, 85, 77, 76, 83, 58,
             67, 49, 48, 46, 50, 53] :: nat list"
  have w: "md5_words ?bs =
    [[1129203528, 1146564922, 842158138, 1297429305, 1127895884, 841887793, 32821, 0, 0,
      0, 0, 0, 0, 0, 200, 0]]"
    by (simp add: md5_words_def md5_pad_def le_bytes_def replicate_numeral upt_rec)
  have b: "md5_block (0x67452301, 0xefcdab89, 0x98badcfe, 0x10325476)
      [1129203528, 1146564922, 842158138, 1297429305, 1127895884, 841887793, 32821, 0,
       0, 0, 0, 0, 0, 0, 200, 0]
    = (1637747838, 1848489902, 2362382213, 3622452054)"
    by code_simp
  have s: "md5_state ?bs = (1637747838, 1848489902, 2362382213, 3622452054)"
    by (simp add: md5_state_def w b)
  show ?thesis
    by (simp add: md5_hex_def utf8_char_def md5_hexdigest_def s le_bytes_def hex_byte_def
        hex_digit_def upt_rec)
qed

subsection \<open>Two runs\<close>

lemma group_key_same_draw:
  "random rt k = random rt' k' \<Longrightarrow> group_key rt business k = group_key rt' business k'"
  by (simp add: group_key_def)

text \<open>
  C1, as amended. The group key of a record is a deterministic function of its business
  fields and of the number drawn for its row (the same fields with the same draw give
  the same key), not of the business fields alone. The materializer does not read the
  keys beyond grouping by them: for two input sequences that hold the same records apart
  from the keys, and whose keys group the records alike, the two runs end alike (both
  return, or both raise TypeError), and when they return, their Node collections, their
  Edge collections and their log entries are equal up to ordering.
\<close>

theorem outputs_depend_on_grouping_only:
  assumes "same_grouping df1 df2"
  shows "snd (get_nodes_and_edges df1 s) = snd (get_nodes_and_edges df2 s)
    \<and> (snd (get_nodes_and_edges df1 s) = None \<longrightarrow>
         mset (final_node_list (fst (get_nodes_and_edges df1 s)))
         = mset (final_node_list (fst (get_nodes_and_edges df2 s)))
       \<and> mset (final_edge_list (fst (get_nodes_and_edges df1 s)))
         = mset (final_edge_list (fst (get_nodes_and_edges df2 s)))
       \<and> mset (logged (fst (get_nodes_and_edges df1 s)))
         = mset (logged (fst (get_nodes_and_edges df2 s))))
    \<and> (random rt k = random rt' k' \<longrightarrow>
         group_key rt business k = group_key rt' business k')"
proof -
  note g = same_grouping_groups_of [OF assms]
  have key: "random rt k = random rt' k' \<longrightarrow>
         group_key rt business k = group_key rt' business k'"
    using group_key_same_draw by blast
  show ?thesis
  proof (cases "\<forall>rows \<in># groups_of df1. group_error rows = None")
    case True
    then have True2: "\<forall>rows \<in># groups_of df2. group_error rows = None"
      using g by simp
    note a = get_nodes_and_edges_returns [OF True, of s]
    note b = get_nodes_and_edges_returns [OF True2, of s]
    have "snd (get_nodes_and_edges df1 s) = snd (get_nodes_and_edges df2 s)"
      by (simp only: a(1) b(1))
    moreover have "mset (final_node_list (fst (get_nodes_and_edges df1 s)))
         = mset (final_node_list (fst (get_nodes_and_edges df2 s)))"
      by (simp only: a(2) b(2) g)
    moreover have "mset (final_edge_list (fst (get_nodes_and_edges df1 s)))
         = mset (final_edge_list (fst (get_nodes_and_edges df2 s)))"
      by (simp only: a(3) b(3) g)
    moreover have "mset (logged (fst (get_nodes_and_edges df1 s)))
         = mset (logged (fst (get_nodes_and_edges df2 s)))"
      by (simp only: a(4) b(4) g)
    ultimately show ?thesis
      using key by blast
  next
    case False
    then have False2: "\<not> (\<forall>rows \<in># groups_of df2. group_error rows = None)"
      using g by simp
    have a: "snd (get_nodes_and_edges df1 s) = Some TypeError"
      by (rule get_nodes_and_edges_raises [OF False])
    have b: "snd (get_nodes_and_edges df2 s) = Some TypeError"
      by (rule get_nodes_and_edges_raises [OF False2])
    from a b key show ?thesis by simp
  qed
qed

theorem outputs_depend_on_grouping_only_witness:
  "same_grouping
     [disease_node_1 (py ''g1'') (py ''HGNC:1'') (Some (py ''G1'')),
      disease_node_2 (py ''g1'') (py ''UMLS:C1'') (Some (py ''d1'')) (Some (py ''CTD'')),
      disease_node_1 (py ''g2'') (py ''HGNC:2'') (Some (py ''G2'')),
      disease_node_2 (py ''g2'') (py ''UMLS:C2'') (Some (py ''d2'')) (Some (py ''CTD''))]
     [disease_node_1 (py ''k9'') (py ''HGNC:1'') (Some (py ''G1'')),
      disease_node_2 (py ''k9'') (py ''UMLS:C1'') (Some (py ''d1'')) (Some (py ''CTD'')),
      disease_node_1 (py ''k1'') (py ''HGNC:2'') (Some (py ''G2'')),
      disease_node_2 (py ''k1'') (py ''UMLS:C2'') (Some (py ''d2'')) (Some (py ''CTD'')) :: int flat_record]
   \<and> map node_identifier (final_node_list (fst (get_nodes_and_edges
       [disease_node_1 (py ''g1'') (py ''HGNC:1'') (Some (py ''G1'')),
        disease_node_2 (py ''g1'') (py ''UMLS:C1'') (Some (py ''d1'')) (Some (py ''CTD'')),
        disease_node_1 (py ''g2'') (py ''HGNC:2'') (Some (py ''G2'')),
        disease_node_2 (py ''g2'') (py ''UMLS:C2'') (Some (py ''d2'')) (Some (py ''CTD''))]
       (init_loader :: int loader))))
     = [py ''HGNC:1'', py ''UMLS:C1'', py ''HGNC:2'', py ''UMLS:C2'']
   \<and> map node_identifier (final_node_list (fst (get_nodes_and_edges
       [disease_node_1 (py ''k9'') (py ''HGNC:1'') (Some (py ''G1'')),
        disease_node_2 (py ''k9'') (py ''UMLS:C1'') (Some (py ''d1'')) (Some (py ''CTD'')),
        disease_node_1 (py ''k1'') (py ''HGNC:2'') (Some (py ''G2'')),
        disease_node_2 (py ''k1'') (py ''UMLS:C2'') (Some (py ''d2'')) (Some (py ''CTD''))]
       (init_loader :: int loader))))
     = [py ''HGNC:2'', py ''UMLS:C2'', py ''HGNC:1'', py ''UMLS:C1'']
   \<and> mset (final_node_list (fst (get_nodes_and_edges
       [disease_node_1 (py ''g1'') (py ''HGNC:1'') (Some (py ''G1'')),
        disease_node_2 (py ''g1'') (py ''UMLS:C1'') (Some (py ''d1'')) (Some (py ''CTD'')),
        disease_node_1 (py ''g2'') (py ''HGNC:2'') (Some (py ''G2'')),
        disease_node_2 (py ''g2'') (py ''UMLS:C2'') (Some (py ''d2'')) (Some (py ''CTD''))]
       (init_loader :: int loader))))
     = mset (final_node_list (fst (get_nodes_and_edges
       [disease_node_1 (py ''k9'') (py ''HGNC:1'') (Some (py ''G1'')),
        disease_node_2 (py ''k9'') (py ''UMLS:C1'') (Some (py ''d1'')) (Some (py ''CTD'')),
        disease_node_1 (py ''k1'') (py ''HGNC:2'') (Some (py ''G2'')),
        disease_node_2 (py ''k1'') (py ''UMLS:C2'') (Some (py ''d2'')) (Some (py ''CTD''))]
       (init_loader :: int loader))))"
proof -
  let ?df1 = "[disease_node_1 (py ''g1'') (py ''HGNC:1'') (Some (py ''G1'')),
      disease_node_2 (py ''g1'') (py ''UMLS:C1'') (Some (py ''d1'')) (Some (py ''CTD'')),
      disease_node_1 (py ''g2'') (py ''HGNC:2'') (Some (py ''G2'')),
      disease_node_2 (py ''g2'') (py ''UMLS:C2'') (Some (py ''d2'')) (Some (py ''CTD''))]
      :: int flat_record list"
  let ?df2 = "[disease_node_1 (py ''k9'') (py ''HGNC:1'') (Some (py ''G1'')),
      disease_node_2 (py ''k9'') (py ''UMLS:C1'') (Some (py ''d1'')) (Some (py ''CTD'')),
      disease_node_1 (py ''k1'') (py ''HGNC:2'') (Some (py ''G2'')),
      disease_node_2 (py ''k1'') (py ''UMLS:C2'') (Some (py ''d2'')) (Some (py ''CTD''))]
      :: int flat_record list"
  have sg: "same_grouping ?df1 ?df2"
    by (simp add: same_grouping_def ungrouped_def disease_node_1_def disease_node_2_def py_def)
  have n1: "map node_identifier (final_node_list (fst (get_nodes_and_edges ?df1 init_loader)))
     = [py ''HGNC:1'', py ''UMLS:C1'', py ''HGNC:2'', py ''UMLS:C2'']"
    by (simp add: get_nodes_and_edges_def groupby_grp_def process_group_def
        disease_node_1_def disease_node_2_def py_def init_loader_def)
  have n2: "map node_identifier (final_node_list (fst (get_nodes_and_edges ?df2 init_loader)))
     = [py ''HGNC:2'', py ''UMLS:C2'', py ''HGNC:1'', py ''UMLS:C1'']"
    by (simp add: get_nodes_and_edges_def groupby_grp_def process_group_def
        disease_node_1_def disease_node_2_def py_def init_loader_def)
  have ok: "snd (get_nodes_and_edges ?df1 (init_loader :: int loader)) = None"
    by (simp add: get_nodes_and_edges_def groupby_grp_def process_group_def
        disease_node_1_def disease_node_2_def py_def init_loader_def)
  have "mset (final_node_list (fst (get_nodes_and_edges ?df1 init_loader)))
        = mset (final_node_list (fst (get_nodes_and_edges ?df2 init_loader)))"
    using outputs_depend_on_grouping_only [OF sg, of init_loader, THEN conjunct2,
        THEN conjunct1] ok by simp
  with sg n1 n2 show ?thesis by simp
qed

text \<open>
  C1 as stated fails: two rows with the same gene and the same disease get two different
  group keys in one run, because each key hashes a fresh random number with them.
\<close>

theorem group_key_not_of_business_fields_counterexample:
  "parse_gene_to_disease ascii_runtime
      [disease ''HGNC:1'' ''C1'' ''d1'' ''G1'' ''CTD'',
       disease ''HGNC:1'' ''C1'' ''d2'' ''G1'' ''CTD'']
      [] init_loader
    = (init_loader\<lparr>draws := 2\<rparr>,
       Inr ([disease_node_1 (py ''36577969d34cf44f6dbe8fb1b79d58ea'') (py ''HGNC:1'') (Some (py ''G1'')),
             disease_node_2 (py ''36577969d34cf44f6dbe8fb1b79d58ea'') (py ''UMLS:C1'')
               (Some (py ''d1'')) (Some (py ''CTD'')),
             disease_node_1 (py ''7e0c9e61aeb72d6e8517cf8c563bead7'') (py ''HGNC:1'') (Some (py ''G1'')),
             disease_node_2 (py ''7e0c9e61aeb72d6e8517cf8c563bead7'') (py ''UMLS:C1'')
               (Some (py ''d2'')) (Some (py ''CTD''))],
            2, 0))
   \<and> py ''36577969d34cf44f6dbe8fb1b79d58ea'' \<noteq> py ''7e0c9e61aeb72d6e8517cf8c563bead7''"
  by (simp add: parse_gene_to_disease_def disease_item_def disease_def ascii_runtime_def
      normalize_did_def umls_pattern_match_def isdecimal_def startswith_def group_key_def
      md5_hex_key_half md5_hex_key_quarter init_loader_def py_def)

end
